theory Spec2Isabelle
  imports Main "HOL-Library.Word"
begin

unbundle bit_operations_syntax

section \<open>The Doom-fire kernel of fire.c, fire-gfx.c and fire-cube.c\<close>

text \<open>
  The repository holds three renderers of one cellular automaton.  Each has an
  \<^verbatim>\<open>init_palette\<close> and an \<^verbatim>\<open>update_fire\<close>:
  \<^item> \<^verbatim>\<open>fire-gfx.c\<close> and \<^verbatim>\<open>fire-cube.c\<close> (the windowed variants) share one
    \<^verbatim>\<open>update_fire\<close> text; only the macros \<^verbatim>\<open>FIRE_WIDTH\<close> and \<^verbatim>\<open>FIRE_HEIGHT\<close>
    differ (320 by 200 and 128 by 128).  Their model carries the suffix \<open>_gfx\<close> and
    takes the two macros as arguments.
  \<^item> \<^verbatim>\<open>fire.c\<close> (the terminal variant) keeps \<^verbatim>\<open>width\<close> and \<^verbatim>\<open>height\<close> in globals
    set by \<^verbatim>\<open>resize_buffers\<close>.  Its model carries the suffix \<open>_term\<close>.

  Heat cells are \<^verbatim>\<open>uint8_t\<close>, modelled as \<^typ>\<open>8 word\<close>; C's \<^verbatim>\<open>int\<close> locals are
  \<^typ>\<open>int\<close>, and every store of an \<^verbatim>\<open>int\<close> into a cell is the narrowing conversion
  \<^const>\<open>word_of_int\<close>.  Loop counters and indices that the code keeps
  non-negative are \<^typ>\<open>nat\<close>.
\<close>

subsection \<open>Palette\<close>

record ColorRGB =
  r :: "8 word"
  g :: "8 word"
  b :: "8 word"

text \<open>
  The body of the loop of \<^verbatim>\<open>init_palette\<close>, the same four-way branch in the three
  files: the \<^verbatim>\<open>uint8_t\<close> channels computed for index \<open>i\<close>.
\<close>

definition palette_color :: "nat \<Rightarrow> ColorRGB" where
  "palette_color i =
     (if i < 64 then \<lparr>r = word_of_int (int i * 4), g = 0, b = 0\<rparr>
      else if i < 128 then \<lparr>r = 255, g = word_of_int ((int i - 64) * 4), b = 0\<rparr>
      else if i < 192 then \<lparr>r = 255, g = 255, b = word_of_int ((int i - 128) * 4)\<rparr>
      else \<lparr>r = 255, g = 255, b = 255\<rparr>)"

text \<open>fire.c: \<^verbatim>\<open>palette_rgb[i] = c\<close> for \<open>i\<close> from 0 to 255.\<close>

definition palette_rgb :: "ColorRGB list" where
  "palette_rgb = map palette_color [0..<256]"

text \<open>
  fire.c: the approximate xterm 256-colour index \<^verbatim>\<open>palette_256[i]\<close>, with C's
  truncating division on non-negative operands.
\<close>

definition palette_256_entry :: "nat \<Rightarrow> 8 word" where
  "palette_256_entry i =
     (if i = 0 then 16
      else if i < 64 then word_of_int (52 + int i div 16)
      else if i < 128 then word_of_int (160 + (int i - 64) div 16 * 6)
      else if i < 220 then word_of_int (202 + (int i - 128) div 10)
      else 231)"

definition palette_256 :: "8 word list" where
  "palette_256 = map palette_256_entry [0..<256]"

text \<open>
  fire-gfx.c and fire-cube.c:
  \<^verbatim>\<open>palette[i] = (0xFF << 24) | (r << 16) | (g << 8) | b\<close>, a \<^verbatim>\<open>uint32_t\<close>.
\<close>

definition pack_argb :: "ColorRGB \<Rightarrow> 32 word" where
  "pack_argb c =
     push_bit 24 0xFF OR push_bit 16 (ucast (r c)) OR push_bit 8 (ucast (g c)) OR ucast (b c)"

definition palette :: "32 word list" where
  "palette = map (\<lambda>i. pack_argb (palette_color i)) [0..<256]"

text \<open>
  How a presenter reads the channels of a packed \<^verbatim>\<open>0xAARRGGBB\<close> pixel, and the
  brightness \<open>R + G + B\<close> of a colour.
\<close>

definition red_of :: "32 word \<Rightarrow> 8 word" where
  "red_of p = ucast (drop_bit 16 p)"

definition green_of :: "32 word \<Rightarrow> 8 word" where
  "green_of p = ucast (drop_bit 8 p)"

definition blue_of :: "32 word \<Rightarrow> 8 word" where
  "blue_of p = ucast p"

definition brightness :: "ColorRGB \<Rightarrow> int" where
  "brightness c = uint (r c) + uint (g c) + uint (b c)"

definition brightness_argb :: "32 word \<Rightarrow> int" where
  "brightness_argb p = uint (red_of p) + uint (green_of p) + uint (blue_of p)"

subsection \<open>Random source and heat buffer\<close>

text \<open>
  \<^verbatim>\<open>rand()\<close> returns an \<^verbatim>\<open>int\<close> between 0 and \<^verbatim>\<open>RAND_MAX\<close>.  The random source
  is the sequence of values the successive calls return: the call number \<open>k\<close>
  (counted from 0) returns \<open>rnd k\<close>.  The simulation state is the number of calls
  made so far together with \<^verbatim>\<open>fire_buffer\<close>, a row-major array of \<open>w * h\<close> cells,
  row 0 on top and row \<open>h - 1\<close> the source row.
\<close>

type_synonym rand_src = "nat \<Rightarrow> nat"

text \<open>
  A scripted random source for examples: the first calls return the values of the
  list, in order, and every later call returns \<open>d\<close>.
\<close>

definition scripted :: "nat list \<Rightarrow> nat \<Rightarrow> rand_src" where
  "scripted vs d k = (if k < length vs then vs ! k else d)"

type_synonym fire = "nat \<times> 8 word list"

text \<open>The cell \<^verbatim>\<open>grid[y][x]\<close>, that is \<^verbatim>\<open>fire_buffer[y * width + x]\<close>.\<close>

definition cell :: "nat \<Rightarrow> 8 word list \<Rightarrow> nat \<Rightarrow> nat \<Rightarrow> 8 word" where
  "cell w buf y x = buf ! (y * w + x)"

text \<open>
  A buffer as the three programs keep it while \<^verbatim>\<open>update_fire\<close> runs: positive
  dimensions and exactly \<open>w * h\<close> cells (the static arrays of fire-gfx.c and
  fire-cube.c; in fire.c the buffer \<^verbatim>\<open>resize_buffers\<close> allocates).  Every index the
  loops compute is then inside the buffer.
\<close>

definition wf_fire :: "nat \<Rightarrow> nat \<Rightarrow> 8 word list \<Rightarrow> bool" where
  "wf_fire w h buf \<longleftrightarrow> 0 < w \<and> 0 < h \<and> length buf = w * h"

subsection \<open>Configuration macros\<close>

text \<open>
  fire-gfx.c and fire-cube.c: \<^verbatim>\<open>FIRE_WIDTH\<close> and \<^verbatim>\<open>FIRE_HEIGHT\<close>, the size of the static
  arrays \<^verbatim>\<open>fire_buffer\<close> and \<^verbatim>\<open>pixel_buffer\<close>.
\<close>

definition FIRE_WIDTH_gfx :: nat where
  "FIRE_WIDTH_gfx = 320"

definition FIRE_HEIGHT_gfx :: nat where
  "FIRE_HEIGHT_gfx = 200"

definition FIRE_WIDTH_cube :: nat where
  "FIRE_WIDTH_cube = 128"

definition FIRE_HEIGHT_cube :: nat where
  "FIRE_HEIGHT_cube = 128"

text \<open>fire.c: \<^verbatim>\<open>COOLING_MIN\<close>, \<^verbatim>\<open>COOLING_MAX\<close> and \<^verbatim>\<open>SPARK_CHANCE\<close>.\<close>

definition COOLING_MIN :: nat where
  "COOLING_MIN = 0"

definition COOLING_MAX :: nat where
  "COOLING_MAX = 3"

definition SPARK_CHANCE :: nat where
  "SPARK_CHANCE = 60"

subsection \<open>Phase 1: seeding the bottom row\<close>

text \<open>
  The integer expressions the seed loop stores, before the narrowing conversion to
  \<^verbatim>\<open>uint8_t\<close>: \<^verbatim>\<open>255 - (rand() % 50)\<close> for a call of \<^verbatim>\<open>rand()\<close> that returned
  \<open>rv\<close>, and the value of \<^verbatim>\<open>fire_buffer[i] -= 5\<close>, which promotes the cell to
  \<^verbatim>\<open>int\<close> and subtracts.
\<close>

definition spark_value :: "nat \<Rightarrow> int" where
  "spark_value rv = 255 - int (rv mod 50)"

definition cooled_value :: "8 word \<Rightarrow> int" where
  "cooled_value c = uint c - 5"

text \<open>
  The body of the seed loop for column \<open>x\<close>.  fire.c compares with the macro
  \<^verbatim>\<open>SPARK_CHANCE\<close>, fire-gfx.c and fire-cube.c with the literal 60.
\<close>

definition seed_cell_term :: "rand_src \<Rightarrow> nat \<Rightarrow> nat \<Rightarrow> fire \<Rightarrow> fire" where
  "seed_cell_term rnd last_row_idx x s =
     (case s of (n, buf) \<Rightarrow>
        if rnd n mod 100 < SPARK_CHANCE
        then (n + 2, buf[last_row_idx + x := word_of_int (spark_value (rnd (n + 1)))])
        else if uint (buf ! (last_row_idx + x)) > 10
             then (n + 1, buf[last_row_idx + x :=
                                word_of_int (cooled_value (buf ! (last_row_idx + x)))])
             else (n + 1, buf))"

definition seed_cell_gfx :: "rand_src \<Rightarrow> nat \<Rightarrow> nat \<Rightarrow> fire \<Rightarrow> fire" where
  "seed_cell_gfx rnd last_row x s =
     (case s of (n, buf) \<Rightarrow>
        if rnd n mod 100 < 60
        then (n + 2, buf[last_row + x := word_of_int (spark_value (rnd (n + 1)))])
        else if uint (buf ! (last_row + x)) > 10
             then (n + 1, buf[last_row + x := word_of_int (cooled_value (buf ! (last_row + x)))])
             else (n + 1, buf))"

text \<open>\<^verbatim>\<open>for (int x = 0; x < width; x++)\<close> over the row starting at \<open>(h - 1) * w\<close>.\<close>

definition seed_row_term :: "rand_src \<Rightarrow> nat \<Rightarrow> nat \<Rightarrow> fire \<Rightarrow> fire" where
  "seed_row_term rnd w h s = fold (seed_cell_term rnd ((h - 1) * w)) [0..<w] s"

definition seed_row_gfx :: "rand_src \<Rightarrow> nat \<Rightarrow> nat \<Rightarrow> fire \<Rightarrow> fire" where
  "seed_row_gfx rnd w h s = fold (seed_cell_gfx rnd ((h - 1) * w)) [0..<w] s"

subsection \<open>Phase 2: propagation\<close>

text \<open>
  The decay drawn from a call of \<^verbatim>\<open>rand()\<close> that returned \<open>rv\<close>:
  \<^verbatim>\<open>rand() % 3\<close> in fire-gfx.c and fire-cube.c,
  \<^verbatim>\<open>rand() % (COOLING_MAX + 1)\<close> in fire.c.
\<close>

definition decay_gfx :: "nat \<Rightarrow> int" where
  "decay_gfx rv = int (rv mod 3)"

definition decay_term :: "nat \<Rightarrow> int" where
  "decay_term rv = int (rv mod (COOLING_MAX + 1))"

text \<open>
  The drifted column \<^verbatim>\<open>x - (rand() % 3) + 1\<close> (all three files), the two clamping
  statements of fire-gfx.c and fire-cube.c, and the decayed value
  \<^verbatim>\<open>new_val = val - decay; if (new_val < 0) new_val = 0\<close> (all three files).
\<close>

definition drift_x :: "nat \<Rightarrow> nat \<Rightarrow> int" where
  "drift_x x rv = int x - int (rv mod 3) + 1"

definition clamp_dst_x :: "nat \<Rightarrow> int \<Rightarrow> int" where
  "clamp_dst_x w dst_x =
     (let dst_x = (if dst_x < 0 then 0 else dst_x)
      in if dst_x \<ge> int w then int w - 1 else dst_x)"

definition decayed :: "int \<Rightarrow> int \<Rightarrow> int" where
  "decayed val decay = (let new_val = val - decay in if new_val < 0 then 0 else new_val)"

text \<open>
  fire-gfx.c and fire-cube.c, the body of the inner loop: the cell below is read; a
  zero clears the cell above it; otherwise two calls of \<^verbatim>\<open>rand()\<close> give the decay
  and the drift, the destination column is clamped into the row, and the decayed
  value is stored there.
\<close>

definition prop_cell_gfx :: "rand_src \<Rightarrow> nat \<Rightarrow> nat \<Rightarrow> nat \<Rightarrow> fire \<Rightarrow> fire" where
  "prop_cell_gfx rnd w y x s =
     (case s of (n, buf) \<Rightarrow>
        let src_idx = (y + 1) * w + x;
            val = uint (buf ! src_idx)
        in if val = 0 then (n, buf[y * w + x := 0])
           else
             let decay = decay_gfx (rnd n);
                 dst_x = clamp_dst_x w (drift_x x (rnd (n + 1)));
                 dst_idx = y * w + nat dst_x;
                 new_val = decayed val decay
             in (n + 2, buf[dst_idx := word_of_int new_val]))"

text \<open>
  fire.c, the body of the inner loop: the decay is drawn first, for every cell; a
  positive cell below draws the drift, and the store happens only when the
  destination column is inside the row.
\<close>

definition prop_cell_term :: "rand_src \<Rightarrow> nat \<Rightarrow> nat \<Rightarrow> nat \<Rightarrow> fire \<Rightarrow> fire" where
  "prop_cell_term rnd w y x s =
     (case s of (n, buf) \<Rightarrow>
        let src_idx = (y + 1) * w + x;
            decay = decay_term (rnd n);
            val = uint (buf ! src_idx)
        in if val > 0 then
             let dst_x = drift_x x (rnd (n + 1))
             in if dst_x \<ge> 0 \<and> dst_x < int w then
                  let dst_idx = y * w + nat dst_x;
                      new_val = decayed val decay
                  in (n + 2, buf[dst_idx := word_of_int new_val])
                else (n + 2, buf)
           else (n + 1, buf[y * w + x := 0]))"

text \<open>The inner loop over the columns of row \<open>y\<close>, and the outer loop over rows 0 to \<open>h - 2\<close>.\<close>

definition prop_row_gfx :: "rand_src \<Rightarrow> nat \<Rightarrow> nat \<Rightarrow> fire \<Rightarrow> fire" where
  "prop_row_gfx rnd w y s = fold (prop_cell_gfx rnd w y) [0..<w] s"

definition prop_row_term :: "rand_src \<Rightarrow> nat \<Rightarrow> nat \<Rightarrow> fire \<Rightarrow> fire" where
  "prop_row_term rnd w y s = fold (prop_cell_term rnd w y) [0..<w] s"

definition propagate_gfx :: "rand_src \<Rightarrow> nat \<Rightarrow> nat \<Rightarrow> fire \<Rightarrow> fire" where
  "propagate_gfx rnd w h s = fold (prop_row_gfx rnd w) [0..<h - 1] s"

definition propagate_term :: "rand_src \<Rightarrow> nat \<Rightarrow> nat \<Rightarrow> fire \<Rightarrow> fire" where
  "propagate_term rnd w h s = fold (prop_row_term rnd w) [0..<h - 1] s"

subsection \<open>Phase 3 (fire-gfx.c, fire-cube.c): rendering into the pixel buffer\<close>

definition render_pixels :: "nat \<Rightarrow> nat \<Rightarrow> 8 word list \<Rightarrow> 32 word list \<Rightarrow> 32 word list" where
  "render_pixels w h buf pixel_buffer =
     fold (\<lambda>i pix. pix[i := palette ! unat (buf ! i)]) [0..<w * h] pixel_buffer"

subsection \<open>\<^verbatim>\<open>update_fire\<close>\<close>

text \<open>
  fire.c: \<^verbatim>\<open>update_fire\<close> seeds and propagates over the globals \<^verbatim>\<open>width\<close> and
  \<^verbatim>\<open>height\<close> (here \<open>w\<close> and \<open>h\<close>).
\<close>

definition update_fire_term :: "rand_src \<Rightarrow> nat \<Rightarrow> nat \<Rightarrow> fire \<Rightarrow> fire" where
  "update_fire_term rnd w h s = propagate_term rnd w h (seed_row_term rnd w h s)"

text \<open>
  fire-gfx.c and fire-cube.c: \<^verbatim>\<open>update_fire\<close> seeds, propagates and renders;
  \<open>w\<close> and \<open>h\<close> are the macros \<^verbatim>\<open>FIRE_WIDTH\<close> and \<^verbatim>\<open>FIRE_HEIGHT\<close>.
\<close>

definition update_fire_gfx ::
  "rand_src \<Rightarrow> nat \<Rightarrow> nat \<Rightarrow> fire \<times> 32 word list \<Rightarrow> fire \<times> 32 word list" where
  "update_fire_gfx rnd w h sp =
     (case sp of (s, pixel_buffer) \<Rightarrow>
        let s' = propagate_gfx rnd w h (seed_row_gfx rnd w h s)
        in (s', render_pixels w h (snd s') pixel_buffer))"

text \<open>
  The state in which the body of a loop runs for a given column: after the seed loop
  has handled the columns before \<open>x\<close>, and after the propagation has handled the rows
  before \<open>y\<close> and the columns before \<open>x\<close> of row \<open>y\<close>.
\<close>

definition seed_at_term :: "rand_src \<Rightarrow> nat \<Rightarrow> nat \<Rightarrow> fire \<Rightarrow> nat \<Rightarrow> fire" where
  "seed_at_term rnd w h s x = fold (seed_cell_term rnd ((h - 1) * w)) [0..<x] s"

definition seed_at_gfx :: "rand_src \<Rightarrow> nat \<Rightarrow> nat \<Rightarrow> fire \<Rightarrow> nat \<Rightarrow> fire" where
  "seed_at_gfx rnd w h s x = fold (seed_cell_gfx rnd ((h - 1) * w)) [0..<x] s"

definition prop_at_gfx :: "rand_src \<Rightarrow> nat \<Rightarrow> nat \<Rightarrow> fire \<Rightarrow> nat \<Rightarrow> nat \<Rightarrow> fire" where
  "prop_at_gfx rnd w h s y x =
     fold (prop_cell_gfx rnd w y) [0..<x]
       (fold (prop_row_gfx rnd w) [0..<y] (seed_row_gfx rnd w h s))"

definition prop_at_term :: "rand_src \<Rightarrow> nat \<Rightarrow> nat \<Rightarrow> fire \<Rightarrow> nat \<Rightarrow> nat \<Rightarrow> fire" where
  "prop_at_term rnd w h s y x =
     fold (prop_cell_term rnd w y) [0..<x]
       (fold (prop_row_term rnd w) [0..<y] (seed_row_term rnd w h s))"

text \<open>
  The column of row \<open>y\<close> that the body stores into when it runs for column \<open>x\<close> in
  state \<open>s\<close>: the column itself when the cell below is zero, the drifted column
  otherwise; \<open>None\<close> when fire.c skips the store.
\<close>

definition write_col_gfx :: "rand_src \<Rightarrow> nat \<Rightarrow> nat \<Rightarrow> nat \<Rightarrow> fire \<Rightarrow> nat option" where
  "write_col_gfx rnd w y x s =
     (case s of (n, buf) \<Rightarrow>
        if uint (buf ! ((y + 1) * w + x)) = 0 then Some x
        else Some (nat (clamp_dst_x w (drift_x x (rnd (n + 1))))))"

definition write_col_term :: "rand_src \<Rightarrow> nat \<Rightarrow> nat \<Rightarrow> nat \<Rightarrow> fire \<Rightarrow> nat option" where
  "write_col_term rnd w y x s =
     (case s of (n, buf) \<Rightarrow>
        if uint (buf ! ((y + 1) * w + x)) > 0
        then (if drift_x x (rnd (n + 1)) \<ge> 0 \<and> drift_x x (rnd (n + 1)) < int w
              then Some (nat (drift_x x (rnd (n + 1)))) else None)
        else Some x)"

text \<open>The specification's \<open>clamp(v, lo, hi)\<close>.\<close>

definition clamp :: "int \<Rightarrow> int \<Rightarrow> int \<Rightarrow> int" where
  "clamp v lo hi = max lo (min hi v)"

subsection \<open>fire.c: the globals and \<^verbatim>\<open>resize_buffers\<close>\<close>

text \<open>
  The globals \<^verbatim>\<open>width\<close>, \<^verbatim>\<open>height\<close>, \<^verbatim>\<open>fire_buffer\<close> and \<^verbatim>\<open>prev_buffer\<close>, and the
  bytes written to the terminal.  A buffer pointer is \<open>None\<close> when it is \<^verbatim>\<open>NULL\<close>.
\<close>

record fire_globals =
  width :: int
  height :: int
  fire_buffer :: "8 word list option"
  prev_buffer :: "8 word list option"
  terminal :: string

text \<open>The globals at program start: \<^verbatim>\<open>width = 0\<close>, \<^verbatim>\<open>height = 0\<close>, both buffers \<^verbatim>\<open>NULL\<close>.\<close>

definition initial_globals :: fire_globals where
  "initial_globals =
     \<lparr>width = 0, height = 0, fire_buffer = None, prev_buffer = None, terminal = []\<rparr>"

text \<open>
  The product \<^verbatim>\<open>width * height\<close> of two \<^verbatim>\<open>int\<close>s.  Beyond \<^verbatim>\<open>INT_MAX\<close> the C standard
  leaves it undefined; the compiled program wraps it to 32 bits, two's complement,
  which is what the model does.
\<close>

definition int_mul :: "int \<Rightarrow> int \<Rightarrow> int" where
  "int_mul p q = sint (word_of_int (p * q) :: 32 word)"

text \<open>The conversion of an \<^verbatim>\<open>int\<close> argument to the 64-bit \<^verbatim>\<open>size_t\<close> parameter of \<^verbatim>\<open>calloc\<close>.\<close>

definition to_size_t :: "int \<Rightarrow> nat" where
  "to_size_t n = nat (n mod 2 ^ 64)"

text \<open>
  \<^verbatim>\<open>calloc(size, 1)\<close>: zeroed bytes, or \<^verbatim>\<open>NULL\<close>.  Whether the allocator grants a
  request is the environment's choice, the argument \<open>granted\<close>; a request of
  \<open>2 ^ 63\<close> bytes or more (every negative \<^verbatim>\<open>int\<close> converts to one) exceeds the address
  space and is never granted.
\<close>

definition calloc :: "bool \<Rightarrow> nat \<Rightarrow> 8 word list option" where
  "calloc granted sz =
     (if granted \<and> sz < 2 ^ 63 then Some (replicate sz 0) else None)"

text \<open>
  \<^verbatim>\<open>resize_buffers(w, h)\<close>: returns at once when the size is unchanged; otherwise
  frees both buffers, stores the new size, allocates the two buffers with
  \<^verbatim>\<open>calloc(width * height, 1)\<close> and prints the clear-screen sequence \<^verbatim>\<open>ESC [ 2 J\<close>.
  It returns \<^verbatim>\<open>void\<close>, checks neither the size nor the pointers \<^verbatim>\<open>calloc\<close> returns.
  \<open>granted_fire\<close> and \<open>granted_prev\<close> are the allocator's answers to the two calls.
\<close>

definition resize_buffers :: "bool \<Rightarrow> bool \<Rightarrow> int \<Rightarrow> int \<Rightarrow> fire_globals \<Rightarrow> fire_globals" where
  "resize_buffers granted_fire granted_prev w h gs =
     (if w = width gs \<and> h = height gs then gs
      else gs\<lparr>width := w, height := h,
              fire_buffer := calloc granted_fire (to_size_t (int_mul w h)),
              prev_buffer := calloc granted_prev (to_size_t (int_mul w h)),
              terminal := terminal gs @ [CHR 0x1B, CHR ''['', CHR ''2'', CHR ''J'']\<rparr>)"

text \<open>
  fire.c: \<^verbatim>\<open>update_fire\<close> on the globals.  With \<^verbatim>\<open>width\<close> not positive neither loop
  body runs.  Otherwise the loops index \<^verbatim>\<open>fire_buffer\<close> up to \<^verbatim>\<open>width * height - 1\<close>
  in \<^verbatim>\<open>int\<close> arithmetic, which is defined only for a positive height, a product within
  \<^verbatim>\<open>INT_MAX\<close> and a buffer of that size; any other call (a \<^verbatim>\<open>NULL\<close> or shorter
  buffer, an index that overflows) is undefined behaviour, \<open>None\<close>.
\<close>

definition update_fire :: "rand_src \<Rightarrow> nat \<times> fire_globals \<Rightarrow> (nat \<times> fire_globals) option" where
  "update_fire rnd ngs =
     (case ngs of (n, gs) \<Rightarrow>
        if width gs \<le> 0 then Some (n, gs)
        else
          (case fire_buffer gs of
             None \<Rightarrow> None
           | Some buf \<Rightarrow>
               if 0 < height gs \<and> width gs * height gs < 2 ^ 31
                  \<and> int (length buf) = width gs * height gs
               then (case update_fire_term rnd (nat (width gs)) (nat (height gs)) (n, buf) of
                       (n', buf') \<Rightarrow> Some (n', gs\<lparr>fire_buffer := Some buf'\<rparr>))
               else None))"

section \<open>Palette: proofs\<close>

lemma uint_u8_exact:
  "0 \<le> v \<Longrightarrow> v < 256 \<Longrightarrow> uint (word_of_int v :: 8 word) = v"
  by (simp add: uint_word_of_int take_bit_eq_mod)

lemma length_palette_rgb: "length palette_rgb = 256"
  by (simp add: palette_rgb_def)

lemma length_palette: "length palette = 256"
  by (simp add: palette_def)

lemma palette_rgb_nth: "i < 256 \<Longrightarrow> palette_rgb ! i = palette_color i"
  by (simp add: palette_rgb_def)

lemma palette_nth: "i < 256 \<Longrightarrow> palette ! i = pack_argb (palette_color i)"
  by (simp add: palette_def)

lemma ucast_drop16_pack:
  fixes x y z :: "8 word" and a :: "32 word"
  shows "ucast (drop_bit 16 (push_bit 24 a OR push_bit 16 (ucast x) OR push_bit 8 (ucast y)
           OR ucast z)) = x"
  by (rule bit_word_eqI) (auto simp add: bit_simps dest: bit_imp_le_length)

lemma ucast_drop8_pack:
  fixes x y z :: "8 word" and a :: "32 word"
  shows "ucast (drop_bit 8 (push_bit 24 a OR push_bit 16 (ucast x) OR push_bit 8 (ucast y)
           OR ucast z)) = y"
  by (rule bit_word_eqI) (auto simp add: bit_simps dest: bit_imp_le_length)

lemma ucast_pack:
  fixes x y z :: "8 word" and a :: "32 word"
  shows "ucast (push_bit 24 a OR push_bit 16 (ucast x) OR push_bit 8 (ucast y) OR ucast z) = z"
  by (rule bit_word_eqI) (auto simp add: bit_simps dest: bit_imp_le_length)

lemma red_of_pack: "red_of (pack_argb c) = r c"
  unfolding red_of_def pack_argb_def by (rule ucast_drop16_pack)

lemma green_of_pack: "green_of (pack_argb c) = g c"
  unfolding green_of_def pack_argb_def by (rule ucast_drop8_pack)

lemma blue_of_pack: "blue_of (pack_argb c) = b c"
  unfolding blue_of_def pack_argb_def by (rule ucast_pack)

lemma brightness_argb_pack: "brightness_argb (pack_argb c) = brightness c"
  by (simp add: brightness_argb_def brightness_def red_of_pack green_of_pack blue_of_pack)

lemma uint_ramp1: "i < 64 \<Longrightarrow> uint (word_of_int (int i * 4) :: 8 word) = int i * 4"
  by (rule uint_u8_exact) auto

lemma uint_ramp2:
  "64 \<le> i \<Longrightarrow> i < 128 \<Longrightarrow> uint (word_of_int ((int i - 64) * 4) :: 8 word) = (int i - 64) * 4"
  by (rule uint_u8_exact) auto

lemma uint_ramp3:
  "128 \<le> i \<Longrightarrow> i < 192 \<Longrightarrow>
     uint (word_of_int ((int i - 128) * 4) :: 8 word) = (int i - 128) * 4"
  by (rule uint_u8_exact) auto

lemma palette_color_ramp1:
  "i < 64 \<Longrightarrow> uint (r (palette_color i)) = int i * 4 \<and> g (palette_color i) = 0
     \<and> b (palette_color i) = 0"
  unfolding palette_color_def using uint_ramp1 [of i] by (simp del: of_int_mult of_int_of_nat_eq)

lemma palette_color_ramp2:
  "64 \<le> i \<Longrightarrow> i < 128 \<Longrightarrow> r (palette_color i) = 255
     \<and> uint (g (palette_color i)) = (int i - 64) * 4 \<and> b (palette_color i) = 0"
  unfolding palette_color_def using uint_ramp2 [of i]
  by (simp del: of_int_mult of_int_of_nat_eq of_int_diff)

lemma palette_color_ramp3:
  "128 \<le> i \<Longrightarrow> i < 192 \<Longrightarrow> r (palette_color i) = 255 \<and> g (palette_color i) = 255
     \<and> uint (b (palette_color i)) = (int i - 128) * 4"
  unfolding palette_color_def using uint_ramp3 [of i]
  by (simp del: of_int_mult of_int_of_nat_eq of_int_diff)

lemma palette_color_ramp4:
  "192 \<le> i \<Longrightarrow> r (palette_color i) = 255 \<and> g (palette_color i) = 255
     \<and> b (palette_color i) = 255"
  by (simp add: palette_color_def)

lemma brightness_palette_color:
  "brightness (palette_color i) =
     (if i < 64 then int i * 4
      else if i < 128 then 255 + (int i - 64) * 4
      else if i < 192 then 510 + (int i - 128) * 4
      else 765)"
proof -
  consider "i < 64" | "64 \<le> i" "i < 128" | "128 \<le> i" "i < 192" | "192 \<le> i"
    by linarith
  then show ?thesis
  proof cases
    case 1
    with palette_color_ramp1 [of i] show ?thesis by (simp add: brightness_def)
  next
    case 2
    with palette_color_ramp2 [of i] show ?thesis by (simp add: brightness_def)
  next
    case 3
    with palette_color_ramp3 [of i] show ?thesis by (simp add: brightness_def)
  next
    case 4
    with palette_color_ramp4 [of i] show ?thesis by (simp add: brightness_def)
  qed
qed

lemma brightness_palette_color_mono:
  "i1 \<le> i2 \<Longrightarrow> brightness (palette_color i1) \<le> brightness (palette_color i2)"
  unfolding brightness_palette_color by (simp split: if_splits)

text \<open>
  Claim C8.  The palette has exactly 256 entries, each a function of its index alone;
  entry 0 is (0,0,0), entry 64 is (255,0,0), entry 128 is (255,255,0) and entry 255 is
  (255,255,255); the entries follow the four ramps R = i*4 on [0,64), G = (i-64)*4 on
  [64,128), B = (i-128)*4 on [128,192) and constant white on [192,256).  Stated for the
  array \<^verbatim>\<open>palette_rgb\<close> of fire.c and for the packed array \<^verbatim>\<open>palette\<close> of fire-gfx.c
  and fire-cube.c.
\<close>

theorem C8_palette_boundaries_and_ramps:
  "length palette_rgb = 256 \<and> length palette = 256
   \<and> palette_rgb ! 0 = \<lparr>r = 0, g = 0, b = 0\<rparr>
   \<and> palette_rgb ! 64 = \<lparr>r = 255, g = 0, b = 0\<rparr>
   \<and> palette_rgb ! 128 = \<lparr>r = 255, g = 255, b = 0\<rparr>
   \<and> palette_rgb ! 255 = \<lparr>r = 255, g = 255, b = 255\<rparr>
   \<and> palette ! 0 = 0xFF000000 \<and> palette ! 64 = 0xFFFF0000
   \<and> palette ! 128 = 0xFFFFFF00 \<and> palette ! 255 = 0xFFFFFFFF
   \<and> (\<forall>i<256. palette_rgb ! i = palette_color i
          \<and> red_of (palette ! i) = r (palette_color i)
          \<and> green_of (palette ! i) = g (palette_color i)
          \<and> blue_of (palette ! i) = b (palette_color i))
   \<and> (\<forall>i<64. uint (r (palette_color i)) = int i * 4
          \<and> g (palette_color i) = 0 \<and> b (palette_color i) = 0)
   \<and> (\<forall>i. 64 \<le> i \<and> i < 128 \<longrightarrow> r (palette_color i) = 255
          \<and> uint (g (palette_color i)) = (int i - 64) * 4 \<and> b (palette_color i) = 0)
   \<and> (\<forall>i. 128 \<le> i \<and> i < 192 \<longrightarrow> r (palette_color i) = 255
          \<and> g (palette_color i) = 255 \<and> uint (b (palette_color i)) = (int i - 128) * 4)
   \<and> (\<forall>i. 192 \<le> i \<and> i < 256 \<longrightarrow> r (palette_color i) = 255
          \<and> g (palette_color i) = 255 \<and> b (palette_color i) = 255)"
proof -
  have bounds: "palette_rgb ! 0 = \<lparr>r = 0, g = 0, b = 0\<rparr>"
    "palette_rgb ! 64 = \<lparr>r = 255, g = 0, b = 0\<rparr>"
    "palette_rgb ! 128 = \<lparr>r = 255, g = 255, b = 0\<rparr>"
    "palette_rgb ! 255 = \<lparr>r = 255, g = 255, b = 255\<rparr>"
    by (simp_all add: palette_rgb_nth palette_color_def)
  have packed: "palette ! 0 = 0xFF000000" "palette ! 64 = 0xFFFF0000"
    "palette ! 128 = 0xFFFFFF00" "palette ! 255 = 0xFFFFFFFF"
    by (simp_all add: palette_nth palette_color_def pack_argb_def)
  have idx: "\<forall>i<256. palette_rgb ! i = palette_color i
          \<and> red_of (palette ! i) = r (palette_color i)
          \<and> green_of (palette ! i) = g (palette_color i)
          \<and> blue_of (palette ! i) = b (palette_color i)"
    by (simp add: palette_rgb_nth palette_nth red_of_pack green_of_pack blue_of_pack)
  show ?thesis
    using bounds packed idx length_palette_rgb length_palette
      palette_color_ramp1 palette_color_ramp2 palette_color_ramp3 palette_color_ramp4
    by blast
qed

theorem C8_palette_witness:
  "(100::nat) < 256 \<and> palette_rgb ! 100 = palette_color 100
   \<and> red_of (palette ! 100) = r (palette_color 100)
   \<and> (10::nat) < 64 \<and> uint (r (palette_color 10)) = 40
   \<and> length palette = 256 \<and> palette ! 64 = 0xFFFF0000"
proof -
  have a: "(100::nat) < 256" and c: "(10::nat) < 64"
    by simp_all
  have "palette_rgb ! 100 = palette_color 100 \<and> red_of (palette ! 100) = r (palette_color 100)"
    using C8_palette_boundaries_and_ramps a by blast
  moreover have "uint (r (palette_color 10)) = int 10 * 4"
    using C8_palette_boundaries_and_ramps c by blast
  moreover have "length palette = 256 \<and> palette ! 64 = 0xFFFF0000"
    using C8_palette_boundaries_and_ramps by blast
  ultimately show ?thesis by simp
qed

text \<open>
  Claim C9.  Palette brightness is monotone: for indices i1 < i2 in [0,255] the sum
  R+G+B of entry i1 is at most that of entry i2, in \<^verbatim>\<open>palette_rgb\<close> and in the packed
  \<^verbatim>\<open>palette\<close>.
\<close>

theorem C9_palette_brightness_monotone:
  "i1 < i2 \<Longrightarrow> i2 < 256 \<Longrightarrow>
     brightness (palette_rgb ! i1) \<le> brightness (palette_rgb ! i2)
     \<and> brightness_argb (palette ! i1) \<le> brightness_argb (palette ! i2)"
  by (simp add: palette_rgb_nth palette_nth brightness_argb_pack brightness_palette_color_mono)

theorem C9_palette_brightness_witness:
  "(63::nat) < 64 \<and> (64::nat) < 256
   \<and> brightness (palette_rgb ! 63) \<le> brightness (palette_rgb ! 64)
   \<and> brightness_argb (palette ! 63) \<le> brightness_argb (palette ! 64)
   \<and> brightness (palette_rgb ! 63) = 252 \<and> brightness (palette_rgb ! 64) = 255"
  using C9_palette_brightness_monotone [of 63 64]
  by (simp add: palette_rgb_nth brightness_palette_color)

section \<open>Loops: invariants of a counted loop\<close>

lemma fold_upt_invariant:
  assumes base: "P 0 s"
    and step: "\<And>k. k < m \<Longrightarrow> P k (fold f [0..<k] s) \<Longrightarrow> P (Suc k) (f k (fold f [0..<k] s))"
  shows "P m (fold f [0..<m] s)"
proof -
  have "k \<le> m \<Longrightarrow> P k (fold f [0..<k] s)" for k
  proof (induction k)
    case 0
    show ?case using base by simp
  next
    case (Suc k)
    then have "P k (fold f [0..<k] s)" and "k < m" by simp_all
    then have "P (Suc k) (f k (fold f [0..<k] s))" using step by blast
    then show ?case by simp
  qed
  then show ?thesis by simp
qed

section \<open>Narrowing stores are exact\<close>

lemma spark_value_range: "206 \<le> spark_value rv \<and> spark_value rv \<le> 255"
proof -
  have "rv mod 50 < 50" by simp
  then show ?thesis unfolding spark_value_def by linarith
qed

lemma uint_spark_value: "uint (word_of_int (spark_value rv) :: 8 word) = spark_value rv"
  using spark_value_range [of rv] by (intro uint_u8_exact) linarith+

lemma uint_le_255: "uint (c :: 8 word) \<le> 255"
  using uint_lt2p [of c] by simp

lemma uint_cooled_value:
  "uint c > 10 \<Longrightarrow> uint (word_of_int (cooled_value c) :: 8 word) = cooled_value c"
  unfolding cooled_value_def using uint_le_255 [of c] by (intro uint_u8_exact) linarith+

lemma decayed_eq_max: "decayed val decay = max 0 (val - decay)"
  by (simp add: decayed_def Let_def)

lemma decayed_range:
  "0 \<le> decay \<Longrightarrow> val \<le> 255 \<Longrightarrow> 0 \<le> decayed val decay \<and> decayed val decay \<le> 255"
  by (simp add: decayed_def Let_def)

lemma uint_decayed:
  "0 \<le> decay \<Longrightarrow> uint (word_of_int (decayed (uint (c :: 8 word)) decay) :: 8 word)
     = decayed (uint c) decay"
  using decayed_range [of decay "uint c"] uint_le_255 [of c] by (intro uint_u8_exact) linarith+

section \<open>Drift and clamping\<close>

lemma drift_x_range: "int x - 1 \<le> drift_x x rv \<and> drift_x x rv \<le> int x + 1"
proof -
  have "rv mod 3 < 3" by simp
  then show ?thesis unfolding drift_x_def by linarith
qed

lemma clamp_dst_x_eq_clamp: "0 < w \<Longrightarrow> clamp_dst_x w d = clamp d 0 (int w - 1)"
  by (auto simp add: clamp_dst_x_def clamp_def Let_def)

lemma clamp_dst_x_range: "0 < w \<Longrightarrow> 0 \<le> clamp_dst_x w d \<and> clamp_dst_x w d < int w"
  by (auto simp add: clamp_dst_x_def Let_def)

lemma clamp_drift_near:
  "x < w \<Longrightarrow> nat (clamp_dst_x w (drift_x x rv)) < w
     \<and> nat (clamp_dst_x w (drift_x x rv)) \<le> x + 1 \<and> x \<le> nat (clamp_dst_x w (drift_x x rv)) + 1"
  using drift_x_range [of x rv] by (auto simp add: clamp_dst_x_def Let_def)

section \<open>One step of the propagation loop\<close>

lemma prop_cell_gfx_zero:
  "uint (buf ! ((y + 1) * w + x)) = 0 \<Longrightarrow> prop_cell_gfx rnd w y x (n, buf) = (n, buf[y * w + x := 0])"
  by (simp add: prop_cell_gfx_def Let_def)

lemma prop_cell_gfx_nonzero:
  "uint (buf ! ((y + 1) * w + x)) \<noteq> 0 \<Longrightarrow>
     prop_cell_gfx rnd w y x (n, buf) =
       (n + 2, buf[y * w + nat (clamp_dst_x w (drift_x x (rnd (n + 1)))) :=
                    word_of_int (decayed (uint (buf ! ((y + 1) * w + x))) (decay_gfx (rnd n)))])"
  by (simp add: prop_cell_gfx_def Let_def)

lemma uint_pos_iff: "0 < uint (c :: 8 word) \<longleftrightarrow> uint c \<noteq> 0"
  using uint_nonnegative [of c] by linarith

lemma prop_cell_term_zero:
  "uint (buf ! ((y + 1) * w + x)) = 0 \<Longrightarrow>
     prop_cell_term rnd w y x (n, buf) = (n + 1, buf[y * w + x := 0])"
  by (simp add: prop_cell_term_def Let_def uint_pos_iff)

lemma prop_cell_term_inside:
  "uint (buf ! ((y + 1) * w + x)) \<noteq> 0 \<Longrightarrow> 0 \<le> drift_x x (rnd (n + 1)) \<Longrightarrow>
   drift_x x (rnd (n + 1)) < int w \<Longrightarrow>
     prop_cell_term rnd w y x (n, buf) =
       (n + 2, buf[y * w + nat (drift_x x (rnd (n + 1))) :=
                    word_of_int (decayed (uint (buf ! ((y + 1) * w + x))) (decay_term (rnd n)))])"
  by (simp add: prop_cell_term_def Let_def uint_pos_iff)

lemma prop_cell_term_outside:
  "uint (buf ! ((y + 1) * w + x)) \<noteq> 0 \<Longrightarrow>
   \<not> (0 \<le> drift_x x (rnd (n + 1)) \<and> drift_x x (rnd (n + 1)) < int w) \<Longrightarrow>
     prop_cell_term rnd w y x (n, buf) = (n + 2, buf)"
  by (auto simp add: prop_cell_term_def Let_def uint_pos_iff)

text \<open>What both bodies have in common: at most one store, into row \<open>y\<close>, next to column \<open>x\<close>.\<close>

lemma prop_cell_gfx_local:
  assumes "x < w"
  shows "snd (prop_cell_gfx rnd w y x s) = snd s \<or>
     (\<exists>d v. d < w \<and> d \<le> x + 1 \<and> x \<le> d + 1 \<and> snd (prop_cell_gfx rnd w y x s) = (snd s)[y * w + d := v])"
proof (cases s)
  case (Pair n buf)
  show ?thesis
  proof (cases "uint (buf ! ((y + 1) * w + x)) = 0")
    case True
    then show ?thesis using assms Pair by (auto simp add: prop_cell_gfx_zero)
  next
    case False
    then show ?thesis using clamp_drift_near [OF assms] Pair
      by (auto simp add: prop_cell_gfx_nonzero)
  qed
qed

lemma prop_cell_term_local:
  assumes "x < w"
  shows "snd (prop_cell_term rnd w y x s) = snd s \<or>
     (\<exists>d v. d < w \<and> d \<le> x + 1 \<and> x \<le> d + 1 \<and> snd (prop_cell_term rnd w y x s) = (snd s)[y * w + d := v])"
proof (cases s)
  case (Pair n buf)
  show ?thesis
  proof (cases "uint (buf ! ((y + 1) * w + x)) = 0")
    case True
    then show ?thesis using assms Pair by (auto simp add: prop_cell_term_zero)
  next
    case nz: False
    show ?thesis
    proof (cases "0 \<le> drift_x x (rnd (n + 1)) \<and> drift_x x (rnd (n + 1)) < int w")
      case True
      have "nat (drift_x x (rnd (n + 1))) < w \<and> nat (drift_x x (rnd (n + 1))) \<le> x + 1
          \<and> x \<le> nat (drift_x x (rnd (n + 1))) + 1"
        using True drift_x_range [of x "rnd (n + 1)"] by linarith
      then show ?thesis using nz True Pair by (auto simp add: prop_cell_term_inside)
    next
      case False
      then show ?thesis using nz Pair prop_cell_term_outside [of buf y w x rnd n] by simp
    qed
  qed
qed

lemma prop_cell_gfx_zero_snd:
  "uint (snd s ! ((y + 1) * w + x)) = 0 \<Longrightarrow> snd (prop_cell_gfx rnd w y x s) = (snd s)[y * w + x := 0]"
  by (cases s) (simp add: prop_cell_gfx_zero)

lemma prop_cell_term_zero_snd:
  "uint (snd s ! ((y + 1) * w + x)) = 0 \<Longrightarrow> snd (prop_cell_term rnd w y x s) = (snd s)[y * w + x := 0]"
  by (cases s) (simp add: prop_cell_term_zero)

section \<open>The inner loop over one row\<close>

lemma row_loop_frame:
  assumes loc: "\<And>x s. x < w \<Longrightarrow> snd (f x s) = snd s \<or>
      (\<exists>d v. d < w \<and> d \<le> x + 1 \<and> x \<le> d + 1 \<and> snd (f x s) = (snd s)[y * w + d := v])"
    and m: "m \<le> w"
  shows "length (snd (fold f [0..<m] s)) = length (snd s) \<and>
     (\<forall>i. i < y * w \<or> (y + 1) * w \<le> i \<longrightarrow> snd (fold f [0..<m] s) ! i = snd s ! i)"
proof (rule fold_upt_invariant [where P = "\<lambda>k t. length (snd t) = length (snd s) \<and>
     (\<forall>i. i < y * w \<or> (y + 1) * w \<le> i \<longrightarrow> snd t ! i = snd s ! i)"])
  show "length (snd s) = length (snd s) \<and>
     (\<forall>i. i < y * w \<or> (y + 1) * w \<le> i \<longrightarrow> snd s ! i = snd s ! i)" by simp
next
  fix k
  let ?t = "fold f [0..<k] s"
  assume k: "k < m"
    and inv: "length (snd ?t) = length (snd s) \<and>
     (\<forall>i. i < y * w \<or> (y + 1) * w \<le> i \<longrightarrow> snd ?t ! i = snd s ! i)"
  from k m have kw: "k < w" by simp
  from loc [OF kw, of ?t] show "length (snd (f k ?t)) = length (snd s) \<and>
     (\<forall>i. i < y * w \<or> (y + 1) * w \<le> i \<longrightarrow> snd (f k ?t) ! i = snd s ! i)"
  proof
    assume "snd (f k ?t) = snd ?t"
    with inv show ?thesis by simp
  next
    assume "\<exists>d v. d < w \<and> d \<le> k + 1 \<and> k \<le> d + 1 \<and> snd (f k ?t) = (snd ?t)[y * w + d := v]"
    then obtain d v where d: "d < w" and eq: "snd (f k ?t) = (snd ?t)[y * w + d := v]"
      by blast
    have "snd (f k ?t) ! i = snd ?t ! i" if "i < y * w \<or> (y + 1) * w \<le> i" for i
    proof -
      from that d have "y * w + d \<noteq> i" by auto
      then show ?thesis by (simp add: eq)
    qed
    with inv show ?thesis by (simp add: eq)
  qed
qed

lemma row_loop_zero:
  assumes loc: "\<And>x s. x < w \<Longrightarrow> snd (f x s) = snd s \<or>
      (\<exists>d v. d < w \<and> d \<le> x + 1 \<and> x \<le> d + 1 \<and> snd (f x s) = (snd s)[y * w + d := v])"
    and zero: "\<And>x s. x < w \<Longrightarrow> uint (snd s ! ((y + 1) * w + x)) = 0 \<Longrightarrow>
      snd (f x s) = (snd s)[y * w + x := 0]"
    and x: "x < w" and len: "y * w + x < length (snd s)"
    and below: "uint (snd s ! ((y + 1) * w + x)) = 0"
    and right: "x + 1 < w \<longrightarrow> uint (snd s ! ((y + 1) * w + (x + 1))) = 0"
  shows "snd (fold f [0..<w] s) ! (y * w + x) = 0"
proof -
  have "x < w \<longrightarrow> snd (fold f [0..<w] s) ! (y * w + x) = 0"
  proof (rule fold_upt_invariant [where P = "\<lambda>k t. x < k \<longrightarrow> snd t ! (y * w + x) = 0"])
    show "x < 0 \<longrightarrow> snd s ! (y * w + x) = 0" by simp
  next
    fix k
    let ?t = "fold f [0..<k] s"
    assume k: "k < w" and inv: "x < k \<longrightarrow> snd ?t ! (y * w + x) = 0"
    have fr: "length (snd ?t) = length (snd s) \<and>
        (\<forall>i. i < y * w \<or> (y + 1) * w \<le> i \<longrightarrow> snd ?t ! i = snd s ! i)"
      using row_loop_frame [of w f y k s] loc k by simp
    show "x < Suc k \<longrightarrow> snd (f k ?t) ! (y * w + x) = 0"
    proof
      assume xk: "x < Suc k"
      consider "k = x" | "k = x + 1" | "x + 1 < k" using xk by linarith
      then show "snd (f k ?t) ! (y * w + x) = 0"
      proof cases
        case 1
        have "uint (snd ?t ! ((y + 1) * w + x)) = 0" using fr below by simp
        then have "snd (f k ?t) = (snd ?t)[y * w + x := 0]" using zero [OF x] 1 by simp
        then show ?thesis using fr len by simp
      next
        case 2
        then have "x + 1 < w" using k by simp
        then have "uint (snd ?t ! ((y + 1) * w + (x + 1))) = 0" using fr right by simp
        then have "snd (f k ?t) = (snd ?t)[y * w + (x + 1) := 0]"
          using zero [OF k, of ?t] 2 by simp
        then show ?thesis using inv 2 by simp
      next
        case 3
        from loc [OF k, of ?t] show ?thesis
        proof
          assume "snd (f k ?t) = snd ?t"
          then show ?thesis using inv 3 by simp
        next
          assume "\<exists>d v. d < w \<and> d \<le> k + 1 \<and> k \<le> d + 1 \<and> snd (f k ?t) = (snd ?t)[y * w + d := v]"
          then obtain d v where d: "k \<le> d + 1" and eq: "snd (f k ?t) = (snd ?t)[y * w + d := v]"
            by blast
          from d 3 have "y * w + d \<noteq> y * w + x" by simp
          then show ?thesis using inv 3 by (simp add: eq)
        qed
      qed
    qed
  qed
  with x show ?thesis by simp
qed

lemma row_loop_keep:
  assumes loc: "\<And>x s. x < w \<Longrightarrow> snd (f x s) = snd s \<or>
      (\<exists>d v. d < w \<and> d \<le> x + 1 \<and> x \<le> d + 1 \<and> snd (f x s) = (snd s)[y * w + d := v])"
    and keep: "\<And>k. k < w \<Longrightarrow> k \<le> x + 1 \<Longrightarrow> x \<le> k + 1 \<Longrightarrow>
      snd (f k (fold f [0..<k] s)) ! (y * w + x) = snd (fold f [0..<k] s) ! (y * w + x)"
  shows "snd (fold f [0..<w] s) ! (y * w + x) = snd s ! (y * w + x)"
proof (rule fold_upt_invariant [where P = "\<lambda>k t. snd t ! (y * w + x) = snd s ! (y * w + x)"])
  show "snd s ! (y * w + x) = snd s ! (y * w + x)" by simp
next
  fix k
  let ?t = "fold f [0..<k] s"
  assume k: "k < w" and inv: "snd ?t ! (y * w + x) = snd s ! (y * w + x)"
  show "snd (f k ?t) ! (y * w + x) = snd s ! (y * w + x)"
  proof (cases "k \<le> x + 1 \<and> x \<le> k + 1")
    case True
    then show ?thesis using keep [OF k] inv by simp
  next
    case far: False
    from loc [OF k, of ?t] show ?thesis
    proof
      assume "snd (f k ?t) = snd ?t"
      then show ?thesis using inv by simp
    next
      assume "\<exists>d v. d < w \<and> d \<le> k + 1 \<and> k \<le> d + 1 \<and> snd (f k ?t) = (snd ?t)[y * w + d := v]"
      then obtain d v where d: "d \<le> k + 1" "k \<le> d + 1"
        and eq: "snd (f k ?t) = (snd ?t)[y * w + d := v]"
        by blast
      from d far have "y * w + d \<noteq> y * w + x" by auto
      then show ?thesis using inv by (simp add: eq)
    qed
  qed
qed

section \<open>The outer loop over the rows\<close>

lemma rows_loop_frame:
  assumes row: "\<And>y s. y < m \<Longrightarrow> length (snd (F y s)) = length (snd s) \<and>
      (\<forall>i. i < y * w \<or> (y + 1) * w \<le> i \<longrightarrow> snd (F y s) ! i = snd s ! i)"
    and k: "k \<le> m"
  shows "length (snd (fold F [0..<k] s)) = length (snd s) \<and>
     (\<forall>i. k * w \<le> i \<longrightarrow> snd (fold F [0..<k] s) ! i = snd s ! i)"
proof (rule fold_upt_invariant [where P = "\<lambda>k t. length (snd t) = length (snd s) \<and>
     (\<forall>i. k * w \<le> i \<longrightarrow> snd t ! i = snd s ! i)"])
  show "length (snd s) = length (snd s) \<and> (\<forall>i. 0 * w \<le> i \<longrightarrow> snd s ! i = snd s ! i)"
    by simp
next
  fix j
  let ?t = "fold F [0..<j] s"
  assume j: "j < k"
    and inv: "length (snd ?t) = length (snd s) \<and> (\<forall>i. j * w \<le> i \<longrightarrow> snd ?t ! i = snd s ! i)"
  from j k have jm: "j < m" by simp
  have "snd (F j ?t) ! i = snd s ! i" if "Suc j * w \<le> i" for i
  proof -
    from that have "(j + 1) * w \<le> i" and "j * w \<le> i" by simp_all
    then show ?thesis using row [OF jm, of ?t] inv by simp
  qed
  then show "length (snd (F j ?t)) = length (snd s) \<and>
     (\<forall>i. Suc j * w \<le> i \<longrightarrow> snd (F j ?t) ! i = snd s ! i)"
    using row [OF jm, of ?t] inv by simp
qed

lemma rows_loop_row:
  assumes row: "\<And>y s. y < m \<Longrightarrow> length (snd (F y s)) = length (snd s) \<and>
      (\<forall>i. i < y * w \<or> (y + 1) * w \<le> i \<longrightarrow> snd (F y s) ! i = snd s ! i)"
    and y: "y < m" and i: "i < (y + 1) * w"
  shows "snd (fold F [0..<m] s) ! i = snd (F y (fold F [0..<y] s)) ! i"
proof -
  have "y < m \<longrightarrow> snd (fold F [0..<m] s) ! i = snd (F y (fold F [0..<y] s)) ! i"
  proof (rule fold_upt_invariant
      [where P = "\<lambda>k t. y < k \<longrightarrow> snd t ! i = snd (F y (fold F [0..<y] s)) ! i"])
    show "y < 0 \<longrightarrow> snd s ! i = snd (F y (fold F [0..<y] s)) ! i" by simp
  next
    fix k
    let ?t = "fold F [0..<k] s"
    assume k: "k < m" and inv: "y < k \<longrightarrow> snd ?t ! i = snd (F y (fold F [0..<y] s)) ! i"
    show "y < Suc k \<longrightarrow> snd (F k ?t) ! i = snd (F y (fold F [0..<y] s)) ! i"
    proof
      assume "y < Suc k"
      then consider "k = y" | "y < k" by linarith
      then show "snd (F k ?t) ! i = snd (F y (fold F [0..<y] s)) ! i"
      proof cases
        case 1
        then show ?thesis by simp
      next
        case 2
        then have "(y + 1) * w \<le> k * w" by (intro mult_le_mono1) simp
        with i have "i < k * w" by simp
        then show ?thesis using row [OF k, of ?t] inv 2 by simp
      qed
    qed
  qed
  with y show ?thesis by simp
qed

section \<open>The seed loop\<close>

lemma seed_cell_gfx_eq: "seed_cell_gfx rnd l x s = seed_cell_term rnd l x s"
  by (simp add: seed_cell_gfx_def seed_cell_term_def SPARK_CHANCE_def)

lemma seed_row_gfx_eq: "seed_row_gfx rnd w h s = seed_row_term rnd w h s"
proof -
  have "seed_cell_gfx rnd ((h - 1) * w) = seed_cell_term rnd ((h - 1) * w)"
    by (intro ext seed_cell_gfx_eq)
  then show ?thesis by (simp add: seed_row_gfx_def seed_row_term_def)
qed

lemma seed_at_gfx_eq: "seed_at_gfx rnd w h s x = seed_at_term rnd w h s x"
proof -
  have "seed_cell_gfx rnd ((h - 1) * w) = seed_cell_term rnd ((h - 1) * w)"
    by (intro ext seed_cell_gfx_eq)
  then show ?thesis by (simp add: seed_at_gfx_def seed_at_term_def)
qed

lemma seed_cell_term_spark:
  "rnd n mod 100 < 60 \<Longrightarrow>
     seed_cell_term rnd l x (n, buf) = (n + 2, buf[l + x := word_of_int (spark_value (rnd (n + 1)))])"
  by (simp add: seed_cell_term_def SPARK_CHANCE_def)

lemma seed_cell_term_cool:
  "\<not> rnd n mod 100 < 60 \<Longrightarrow> uint (buf ! (l + x)) > 10 \<Longrightarrow>
     seed_cell_term rnd l x (n, buf) = (n + 1, buf[l + x := word_of_int (cooled_value (buf ! (l + x)))])"
  by (simp add: seed_cell_term_def SPARK_CHANCE_def)

lemma seed_cell_term_keep:
  "\<not> rnd n mod 100 < 60 \<Longrightarrow> \<not> uint (buf ! (l + x)) > 10 \<Longrightarrow>
     seed_cell_term rnd l x (n, buf) = (n + 1, buf)"
  by (simp add: seed_cell_term_def SPARK_CHANCE_def)

lemma seed_cell_term_local:
  "snd (seed_cell_term rnd l x s) = snd s \<or> (\<exists>v. snd (seed_cell_term rnd l x s) = (snd s)[l + x := v])"
  by (cases s) (auto simp add: seed_cell_term_def)

lemma seed_loop_frame:
  "length (snd (fold (seed_cell_term rnd l) [0..<m] s)) = length (snd s) \<and>
     (\<forall>i. i < l \<or> l + m \<le> i \<longrightarrow> snd (fold (seed_cell_term rnd l) [0..<m] s) ! i = snd s ! i)"
proof (rule fold_upt_invariant [where P = "\<lambda>k t. length (snd t) = length (snd s) \<and>
     (\<forall>i. i < l \<or> l + k \<le> i \<longrightarrow> snd t ! i = snd s ! i)"])
  show "length (snd s) = length (snd s) \<and> (\<forall>i. i < l \<or> l + 0 \<le> i \<longrightarrow> snd s ! i = snd s ! i)"
    by simp
next
  fix k
  let ?t = "fold (seed_cell_term rnd l) [0..<k] s"
  assume inv: "length (snd ?t) = length (snd s) \<and>
     (\<forall>i. i < l \<or> l + k \<le> i \<longrightarrow> snd ?t ! i = snd s ! i)"
  from seed_cell_term_local [of rnd l k ?t]
  show "length (snd (seed_cell_term rnd l k ?t)) = length (snd s) \<and>
     (\<forall>i. i < l \<or> l + Suc k \<le> i \<longrightarrow> snd (seed_cell_term rnd l k ?t) ! i = snd s ! i)"
  proof
    assume "snd (seed_cell_term rnd l k ?t) = snd ?t"
    then show ?thesis using inv by simp
  next
    assume "\<exists>v. snd (seed_cell_term rnd l k ?t) = (snd ?t)[l + k := v]"
    then obtain v where eq: "snd (seed_cell_term rnd l k ?t) = (snd ?t)[l + k := v]" by blast
    have "snd (seed_cell_term rnd l k ?t) ! i = snd s ! i" if "i < l \<or> l + Suc k \<le> i" for i
    proof -
      from that have ne: "l + k \<noteq> i" and "i < l \<or> l + k \<le> i" by auto
      then have "snd ?t ! i = snd s ! i" using inv by blast
      then show ?thesis using ne by (simp add: eq)
    qed
    then show ?thesis using inv by (simp add: eq)
  qed
qed

lemma seed_loop_cell:
  assumes x: "x < w"
  shows "snd (fold (seed_cell_term rnd l) [0..<w] s) ! (l + x) =
     snd (seed_cell_term rnd l x (fold (seed_cell_term rnd l) [0..<x] s)) ! (l + x)"
proof -
  let ?r = "snd (seed_cell_term rnd l x (fold (seed_cell_term rnd l) [0..<x] s)) ! (l + x)"
  have "x < w \<longrightarrow> snd (fold (seed_cell_term rnd l) [0..<w] s) ! (l + x) = ?r"
  proof (rule fold_upt_invariant [where P = "\<lambda>k t. x < k \<longrightarrow> snd t ! (l + x) = ?r"])
    show "x < 0 \<longrightarrow> snd s ! (l + x) = ?r" by simp
  next
    fix k
    let ?t = "fold (seed_cell_term rnd l) [0..<k] s"
    assume inv: "x < k \<longrightarrow> snd ?t ! (l + x) = ?r"
    show "x < Suc k \<longrightarrow> snd (seed_cell_term rnd l k ?t) ! (l + x) = ?r"
    proof
      assume "x < Suc k"
      then consider "k = x" | "x < k" by linarith
      then show "snd (seed_cell_term rnd l k ?t) ! (l + x) = ?r"
      proof cases
        case 1
        then show ?thesis by simp
      next
        case 2
        from seed_cell_term_local [of rnd l k ?t] show ?thesis
        proof
          assume "snd (seed_cell_term rnd l k ?t) = snd ?t"
          then show ?thesis using inv 2 by simp
        next
          assume "\<exists>v. snd (seed_cell_term rnd l k ?t) = (snd ?t)[l + k := v]"
          then obtain v where eq: "snd (seed_cell_term rnd l k ?t) = (snd ?t)[l + k := v]"
            by blast
          from 2 have "l + k \<noteq> l + x" by simp
          then show ?thesis using inv 2 by (simp add: eq)
        qed
      qed
    qed
  qed
  with x show ?thesis by simp
qed

lemma seed_row_term_frame:
  "length (snd (seed_row_term rnd w h s)) = length (snd s) \<and>
     (\<forall>i. i < (h - 1) * w \<longrightarrow> snd (seed_row_term rnd w h s) ! i = snd s ! i)"
  using seed_loop_frame [of rnd "(h - 1) * w" w s] by (simp add: seed_row_term_def)

lemma seed_at_term_frame:
  "length (snd (seed_at_term rnd w h s x)) = length (snd s) \<and>
     (\<forall>i. (h - 1) * w + x \<le> i \<longrightarrow> snd (seed_at_term rnd w h s x) ! i = snd s ! i)"
  using seed_loop_frame [of rnd "(h - 1) * w" x s] by (simp add: seed_at_term_def)

lemma seed_row_term_cell:
  "x < w \<Longrightarrow> snd (seed_row_term rnd w h s) ! ((h - 1) * w + x) =
     snd (seed_cell_term rnd ((h - 1) * w) x (seed_at_term rnd w h s x)) ! ((h - 1) * w + x)"
  using seed_loop_cell [of x w rnd "(h - 1) * w" s] by (simp add: seed_row_term_def seed_at_term_def)

section \<open>The two propagation loops\<close>

lemma prop_row_gfx_frame:
  "length (snd (prop_row_gfx rnd w y s)) = length (snd s) \<and>
     (\<forall>i. i < y * w \<or> (y + 1) * w \<le> i \<longrightarrow> snd (prop_row_gfx rnd w y s) ! i = snd s ! i)"
  unfolding prop_row_gfx_def
  by (rule row_loop_frame [where w = w]) (use prop_cell_gfx_local in simp_all)

lemma prop_row_term_frame:
  "length (snd (prop_row_term rnd w y s)) = length (snd s) \<and>
     (\<forall>i. i < y * w \<or> (y + 1) * w \<le> i \<longrightarrow> snd (prop_row_term rnd w y s) ! i = snd s ! i)"
  unfolding prop_row_term_def
  by (rule row_loop_frame [where w = w]) (use prop_cell_term_local in simp_all)

lemma rows_gfx_frame:
  "length (snd (fold (prop_row_gfx rnd w) [0..<k] s)) = length (snd s) \<and>
     (\<forall>i. k * w \<le> i \<longrightarrow> snd (fold (prop_row_gfx rnd w) [0..<k] s) ! i = snd s ! i)"
  by (rule rows_loop_frame [where m = k]) (use prop_row_gfx_frame in simp_all)

lemma rows_term_frame:
  "length (snd (fold (prop_row_term rnd w) [0..<k] s)) = length (snd s) \<and>
     (\<forall>i. k * w \<le> i \<longrightarrow> snd (fold (prop_row_term rnd w) [0..<k] s) ! i = snd s ! i)"
  by (rule rows_loop_frame [where m = k]) (use prop_row_term_frame in simp_all)

lemma propagate_gfx_row:
  assumes "y + 1 < h" "x < w"
  shows "snd (propagate_gfx rnd w h s) ! (y * w + x) =
     snd (prop_row_gfx rnd w y (fold (prop_row_gfx rnd w) [0..<y] s)) ! (y * w + x)"
  unfolding propagate_gfx_def
  by (rule rows_loop_row [where w = w]) (use assms prop_row_gfx_frame in simp_all)

lemma propagate_term_row:
  assumes "y + 1 < h" "x < w"
  shows "snd (propagate_term rnd w h s) ! (y * w + x) =
     snd (prop_row_term rnd w y (fold (prop_row_term rnd w) [0..<y] s)) ! (y * w + x)"
  unfolding propagate_term_def
  by (rule rows_loop_row [where w = w]) (use assms prop_row_term_frame in simp_all)

lemma cell_index_bound: "y < h \<Longrightarrow> x < w \<Longrightarrow> y * w + x < w * (h :: nat)"
proof -
  assume y: "y < h" and x: "x < w"
  then have "y * w + x < (y + 1) * w" by simp
  also have "(y + 1) * w \<le> h * w" using y by (intro mult_le_mono1) simp
  finally show ?thesis by (simp add: mult.commute)
qed

section \<open>\<^verbatim>\<open>update_fire\<close> as a whole\<close>

lemma fst_update_fire_gfx:
  "fst (update_fire_gfx rnd w h (s, pix)) = propagate_gfx rnd w h (seed_row_gfx rnd w h s)"
  by (simp add: update_fire_gfx_def Let_def)

lemma prop_at_gfx_frame:
  assumes "x \<le> w"
  shows "length (snd (prop_at_gfx rnd w h s y x)) = length (snd s) \<and>
     (\<forall>i. (y + 1) * w \<le> i \<longrightarrow> snd (prop_at_gfx rnd w h s y x) ! i = snd (seed_row_gfx rnd w h s) ! i)"
proof -
  let ?S = "seed_row_gfx rnd w h s"
  let ?T = "fold (prop_row_gfx rnd w) [0..<y] ?S"
  have a: "length (snd (prop_at_gfx rnd w h s y x)) = length (snd ?T) \<and>
     (\<forall>i. i < y * w \<or> (y + 1) * w \<le> i \<longrightarrow> snd (prop_at_gfx rnd w h s y x) ! i = snd ?T ! i)"
    unfolding prop_at_gfx_def
    by (rule row_loop_frame [where w = w]) (use assms prop_cell_gfx_local in simp_all)
  have b: "length (snd ?T) = length (snd ?S) \<and> (\<forall>i. y * w \<le> i \<longrightarrow> snd ?T ! i = snd ?S ! i)"
    by (rule rows_gfx_frame)
  have c: "length (snd ?S) = length (snd s)"
    using seed_row_term_frame [of rnd w h s] by (simp add: seed_row_gfx_eq)
  have "snd (prop_at_gfx rnd w h s y x) ! i = snd ?S ! i" if "(y + 1) * w \<le> i" for i
  proof -
    from that have "y * w \<le> i" by simp
    then show ?thesis using a b that by simp
  qed
  then show ?thesis using a b c by simp
qed

lemma prop_at_term_frame:
  assumes "x \<le> w"
  shows "length (snd (prop_at_term rnd w h s y x)) = length (snd s) \<and>
     (\<forall>i. (y + 1) * w \<le> i \<longrightarrow> snd (prop_at_term rnd w h s y x) ! i = snd (seed_row_term rnd w h s) ! i)"
proof -
  let ?S = "seed_row_term rnd w h s"
  let ?T = "fold (prop_row_term rnd w) [0..<y] ?S"
  have a: "length (snd (prop_at_term rnd w h s y x)) = length (snd ?T) \<and>
     (\<forall>i. i < y * w \<or> (y + 1) * w \<le> i \<longrightarrow> snd (prop_at_term rnd w h s y x) ! i = snd ?T ! i)"
    unfolding prop_at_term_def
    by (rule row_loop_frame [where w = w]) (use assms prop_cell_term_local in simp_all)
  have b: "length (snd ?T) = length (snd ?S) \<and> (\<forall>i. y * w \<le> i \<longrightarrow> snd ?T ! i = snd ?S ! i)"
    by (rule rows_term_frame)
  have c: "length (snd ?S) = length (snd s)"
    using seed_row_term_frame [of rnd w h s] by simp
  have "snd (prop_at_term rnd w h s y x) ! i = snd ?S ! i" if "(y + 1) * w \<le> i" for i
  proof -
    from that have "y * w \<le> i" by simp
    then show ?thesis using a b that by simp
  qed
  then show ?thesis using a b c by simp
qed

text \<open>The cell a row reads from is untouched by the seed loop unless it is in the bottom row.\<close>

lemma seed_row_term_above:
  "y + 2 < h \<Longrightarrow> x < w \<Longrightarrow>
     cell w (snd (seed_row_term rnd w h s)) (y + 1) x = cell w (snd s) (y + 1) x"
proof -
  assume y: "y + 2 < h" and x: "x < w"
  have "(y + 1) * w + x < (y + 2) * w" using x by simp
  also have "(y + 2) * w \<le> (h - 1) * w" using y by (intro mult_le_mono1) simp
  finally show ?thesis using seed_row_term_frame [of rnd w h s] by (simp add: cell_def)
qed

lemma seed_row_term_row:
  "y + 1 < h \<Longrightarrow> x < w \<Longrightarrow>
     cell w (snd (seed_row_term rnd w h s)) y x = cell w (snd s) y x"
proof -
  assume y: "y + 1 < h" and x: "x < w"
  have "y * w + x < (y + 1) * w" using x by simp
  also have "(y + 1) * w \<le> (h - 1) * w" using y by (intro mult_le_mono1) simp
  finally show ?thesis using seed_row_term_frame [of rnd w h s] by (simp add: cell_def)
qed

subsection \<open>A zero below, and a zero below to the right\<close>

lemma update_gfx_zero:
  assumes wf: "wf_fire w h buf" and y: "y + 1 < h" and x: "x < w"
    and below: "cell w (snd (seed_row_gfx rnd w h (n, buf))) (y + 1) x = 0"
    and right: "x + 1 < w \<longrightarrow> cell w (snd (seed_row_gfx rnd w h (n, buf))) (y + 1) (x + 1) = 0"
  shows "cell w (snd (fst (update_fire_gfx rnd w h ((n, buf), pix)))) y x = 0"
proof -
  let ?S = "seed_row_gfx rnd w h (n, buf)"
  let ?T = "fold (prop_row_gfx rnd w) [0..<y] ?S"
  have T: "length (snd ?T) = length (snd ?S) \<and> (\<forall>i. y * w \<le> i \<longrightarrow> snd ?T ! i = snd ?S ! i)"
    by (rule rows_gfx_frame)
  have len: "length (snd ?T) = w * h"
    using T seed_row_term_frame [of rnd w h "(n, buf)"] wf
    by (simp add: seed_row_gfx_eq wf_fire_def)
  have "y * w + x < w * h" using y x by (intro cell_index_bound) simp_all
  then have inb: "y * w + x < length (snd ?T)" using len by simp
  have b1: "uint (snd ?T ! ((y + 1) * w + x)) = 0"
    using T below by (simp add: cell_def)
  have b2: "x + 1 < w \<longrightarrow> uint (snd ?T ! ((y + 1) * w + (x + 1))) = 0"
    using T right by (simp add: cell_def)
  have "snd (fold (prop_cell_gfx rnd w y) [0..<w] ?T) ! (y * w + x) = 0"
    by (rule row_loop_zero [where w = w and f = "prop_cell_gfx rnd w y", OF _ _ x inb b1 b2])
      (use prop_cell_gfx_local prop_cell_gfx_zero_snd in simp_all)
  then have "snd (prop_row_gfx rnd w y ?T) ! (y * w + x) = 0"
    by (simp add: prop_row_gfx_def)
  then show ?thesis
    using propagate_gfx_row [OF y x, of rnd ?S] by (simp add: fst_update_fire_gfx cell_def)
qed

lemma update_term_zero:
  assumes wf: "wf_fire w h buf" and y: "y + 1 < h" and x: "x < w"
    and below: "cell w (snd (seed_row_term rnd w h (n, buf))) (y + 1) x = 0"
    and right: "x + 1 < w \<longrightarrow> cell w (snd (seed_row_term rnd w h (n, buf))) (y + 1) (x + 1) = 0"
  shows "cell w (snd (update_fire_term rnd w h (n, buf))) y x = 0"
proof -
  let ?S = "seed_row_term rnd w h (n, buf)"
  let ?T = "fold (prop_row_term rnd w) [0..<y] ?S"
  have T: "length (snd ?T) = length (snd ?S) \<and> (\<forall>i. y * w \<le> i \<longrightarrow> snd ?T ! i = snd ?S ! i)"
    by (rule rows_term_frame)
  have len: "length (snd ?T) = w * h"
    using T seed_row_term_frame [of rnd w h "(n, buf)"] wf by (simp add: wf_fire_def)
  have "y * w + x < w * h" using y x by (intro cell_index_bound) simp_all
  then have inb: "y * w + x < length (snd ?T)" using len by simp
  have b1: "uint (snd ?T ! ((y + 1) * w + x)) = 0"
    using T below by (simp add: cell_def)
  have b2: "x + 1 < w \<longrightarrow> uint (snd ?T ! ((y + 1) * w + (x + 1))) = 0"
    using T right by (simp add: cell_def)
  have "snd (fold (prop_cell_term rnd w y) [0..<w] ?T) ! (y * w + x) = 0"
    by (rule row_loop_zero [where w = w and f = "prop_cell_term rnd w y", OF _ _ x inb b1 b2])
      (use prop_cell_term_local prop_cell_term_zero_snd in simp_all)
  then have "snd (prop_row_term rnd w y ?T) ! (y * w + x) = 0"
    by (simp add: prop_row_term_def)
  then show ?thesis
    using propagate_term_row [OF y x, of rnd ?S] by (simp add: update_fire_term_def cell_def)
qed

subsection \<open>A cell no store is aimed at\<close>

lemma write_col_gfx_keep:
  assumes "write_col_gfx rnd w y k t \<noteq> Some x"
  shows "snd (prop_cell_gfx rnd w y k t) ! (y * w + x) = snd t ! (y * w + x)"
proof (cases t)
  case (Pair n buf)
  show ?thesis
  proof (cases "uint (buf ! ((y + 1) * w + k)) = 0")
    case True
    then have "k \<noteq> x" using assms Pair by (simp add: write_col_gfx_def)
    then show ?thesis using True Pair by (simp add: prop_cell_gfx_zero)
  next
    case False
    then have "nat (clamp_dst_x w (drift_x k (rnd (n + 1)))) \<noteq> x"
      using assms Pair by (simp add: write_col_gfx_def)
    then show ?thesis using False Pair by (simp add: prop_cell_gfx_nonzero)
  qed
qed

lemma write_col_term_keep:
  assumes "write_col_term rnd w y k t \<noteq> Some x"
  shows "snd (prop_cell_term rnd w y k t) ! (y * w + x) = snd t ! (y * w + x)"
proof (cases t)
  case (Pair n buf)
  show ?thesis
  proof (cases "uint (buf ! ((y + 1) * w + k)) = 0")
    case True
    then have "k \<noteq> x" using assms Pair by (simp add: write_col_term_def)
    then show ?thesis using True Pair by (simp add: prop_cell_term_zero)
  next
    case nz: False
    show ?thesis
    proof (cases "0 \<le> drift_x k (rnd (n + 1)) \<and> drift_x k (rnd (n + 1)) < int w")
      case True
      then have "nat (drift_x k (rnd (n + 1))) \<noteq> x"
        using assms Pair nz by (simp add: write_col_term_def uint_pos_iff)
      then show ?thesis using nz True Pair by (simp add: prop_cell_term_inside)
    next
      case False
      then show ?thesis using nz Pair prop_cell_term_outside [of buf y w k rnd n] by simp
    qed
  qed
qed

lemma update_gfx_keep:
  assumes y: "y + 1 < h" and x: "x < w"
    and aim: "\<forall>k<w. k \<le> x + 1 \<and> x \<le> k + 1 \<longrightarrow>
      write_col_gfx rnd w y k (prop_at_gfx rnd w h s y k) \<noteq> Some x"
  shows "cell w (snd (fst (update_fire_gfx rnd w h (s, pix)))) y x = cell w (snd s) y x"
proof -
  let ?S = "seed_row_gfx rnd w h s"
  let ?T = "fold (prop_row_gfx rnd w) [0..<y] ?S"
  have T: "length (snd ?T) = length (snd ?S) \<and> (\<forall>i. y * w \<le> i \<longrightarrow> snd ?T ! i = snd ?S ! i)"
    by (rule rows_gfx_frame)
  have "snd (fold (prop_cell_gfx rnd w y) [0..<w] ?T) ! (y * w + x) = snd ?T ! (y * w + x)"
  proof (rule row_loop_keep [where w = w])
    fix k t
    assume "k < w"
    then show "snd (prop_cell_gfx rnd w y k t) = snd t \<or>
      (\<exists>d v. d < w \<and> d \<le> k + 1 \<and> k \<le> d + 1 \<and> snd (prop_cell_gfx rnd w y k t) = (snd t)[y * w + d := v])"
      by (rule prop_cell_gfx_local)
  next
    fix k
    assume "k < w" "k \<le> x + 1" "x \<le> k + 1"
    then have "write_col_gfx rnd w y k (prop_at_gfx rnd w h s y k) \<noteq> Some x"
      using aim by blast
    then show "snd (prop_cell_gfx rnd w y k (fold (prop_cell_gfx rnd w y) [0..<k] ?T)) ! (y * w + x)
        = snd (fold (prop_cell_gfx rnd w y) [0..<k] ?T) ! (y * w + x)"
      using write_col_gfx_keep [of rnd w y k "prop_at_gfx rnd w h s y k" x]
      by (simp add: prop_at_gfx_def)
  qed
  then have "snd (prop_row_gfx rnd w y ?T) ! (y * w + x) = snd ?S ! (y * w + x)"
    using T by (simp add: prop_row_gfx_def)
  then have "cell w (snd (fst (update_fire_gfx rnd w h (s, pix)))) y x = cell w (snd ?S) y x"
    using propagate_gfx_row [OF y x, of rnd ?S] by (simp add: fst_update_fire_gfx cell_def)
  then show ?thesis using seed_row_term_row [OF y x, of rnd s] by (simp add: seed_row_gfx_eq)
qed

lemma update_term_keep:
  assumes y: "y + 1 < h" and x: "x < w"
    and aim: "\<forall>k<w. k \<le> x + 1 \<and> x \<le> k + 1 \<longrightarrow>
      write_col_term rnd w y k (prop_at_term rnd w h s y k) \<noteq> Some x"
  shows "cell w (snd (update_fire_term rnd w h s)) y x = cell w (snd s) y x"
proof -
  let ?S = "seed_row_term rnd w h s"
  let ?T = "fold (prop_row_term rnd w) [0..<y] ?S"
  have T: "length (snd ?T) = length (snd ?S) \<and> (\<forall>i. y * w \<le> i \<longrightarrow> snd ?T ! i = snd ?S ! i)"
    by (rule rows_term_frame)
  have "snd (fold (prop_cell_term rnd w y) [0..<w] ?T) ! (y * w + x) = snd ?T ! (y * w + x)"
  proof (rule row_loop_keep [where w = w])
    fix k t
    assume "k < w"
    then show "snd (prop_cell_term rnd w y k t) = snd t \<or>
      (\<exists>d v. d < w \<and> d \<le> k + 1 \<and> k \<le> d + 1 \<and> snd (prop_cell_term rnd w y k t) = (snd t)[y * w + d := v])"
      by (rule prop_cell_term_local)
  next
    fix k
    assume "k < w" "k \<le> x + 1" "x \<le> k + 1"
    then have "write_col_term rnd w y k (prop_at_term rnd w h s y k) \<noteq> Some x"
      using aim by blast
    then show "snd (prop_cell_term rnd w y k (fold (prop_cell_term rnd w y) [0..<k] ?T)) ! (y * w + x)
        = snd (fold (prop_cell_term rnd w y) [0..<k] ?T) ! (y * w + x)"
      using write_col_term_keep [of rnd w y k "prop_at_term rnd w h s y k" x]
      by (simp add: prop_at_term_def)
  qed
  then have "snd (prop_row_term rnd w y ?T) ! (y * w + x) = snd ?S ! (y * w + x)"
    using T by (simp add: prop_row_term_def)
  then have "cell w (snd (update_fire_term rnd w h s)) y x = cell w (snd ?S) y x"
    using propagate_term_row [OF y x, of rnd ?S] by (simp add: update_fire_term_def cell_def)
  then show ?thesis using seed_row_term_row [OF y x, of rnd s] by simp
qed

subsection \<open>The state in which a loop body runs\<close>

lemma prop_at_gfx_Suc:
  "prop_at_gfx rnd w h s y (Suc x) = prop_cell_gfx rnd w y x (prop_at_gfx rnd w h s y x)"
  by (simp add: prop_at_gfx_def)

lemma prop_at_term_Suc:
  "prop_at_term rnd w h s y (Suc x) = prop_cell_term rnd w y x (prop_at_term rnd w h s y x)"
  by (simp add: prop_at_term_def)

lemma all_less_3: "(\<forall>k<(3::nat). P k) \<longleftrightarrow> P 0 \<and> P 1 \<and> P 2"
proof -
  have "k < 3 \<longleftrightarrow> k = 0 \<or> k = 1 \<or> k = 2" for k :: nat by auto
  then show ?thesis by auto
qed

subsection \<open>The bottom row after the call\<close>

lemma update_term_bottom:
  "cell w (snd (update_fire_term rnd w h s)) (h - 1) x
     = cell w (snd (seed_row_term rnd w h s)) (h - 1) x"
  using rows_term_frame [of rnd w "h - 1" "seed_row_term rnd w h s"]
  by (simp add: update_fire_term_def propagate_term_def cell_def)

lemma update_gfx_bottom:
  "cell w (snd (fst (update_fire_gfx rnd w h (s, pix)))) (h - 1) x
     = cell w (snd (seed_row_term rnd w h s)) (h - 1) x"
  using rows_gfx_frame [of rnd w "h - 1" "seed_row_gfx rnd w h s"]
  by (simp add: fst_update_fire_gfx propagate_gfx_def cell_def seed_row_gfx_eq)

lemma seed_row_term_value:
  assumes wf: "wf_fire w h buf" and x: "x < w"
    and m: "m = fst (seed_at_term rnd w h (n, buf) x)"
  shows "(rnd m mod 100 < 60 \<longrightarrow>
            uint (cell w (snd (seed_row_term rnd w h (n, buf))) (h - 1) x) = spark_value (rnd (m + 1)))
    \<and> (\<not> rnd m mod 100 < 60 \<and> 10 < uint (cell w buf (h - 1) x) \<longrightarrow>
            uint (cell w (snd (seed_row_term rnd w h (n, buf))) (h - 1) x)
              = uint (cell w buf (h - 1) x) - 5)
    \<and> (\<not> rnd m mod 100 < 60 \<and> \<not> 10 < uint (cell w buf (h - 1) x) \<longrightarrow>
            cell w (snd (seed_row_term rnd w h (n, buf))) (h - 1) x = cell w buf (h - 1) x)"
proof -
  let ?l = "(h - 1) * w"
  obtain b where t: "seed_at_term rnd w h (n, buf) x = (m, b)"
    using m by (cases "seed_at_term rnd w h (n, buf) x") simp
  have fr: "length b = length buf \<and> (\<forall>i. ?l + x \<le> i \<longrightarrow> b ! i = buf ! i)"
    using seed_at_term_frame [of rnd w h "(n, buf)" x] t by simp
  then have old: "b ! (?l + x) = buf ! (?l + x)" by simp
  have "h - 1 < h" using wf by (simp add: wf_fire_def)
  then have "?l + x < w * h" using x by (rule cell_index_bound)
  then have inb: "?l + x < length b" using fr wf by (simp add: wf_fire_def)
  have v: "cell w (snd (seed_row_term rnd w h (n, buf))) (h - 1) x
      = snd (seed_cell_term rnd ?l x (m, b)) ! (?l + x)"
    using seed_row_term_cell [OF x, of rnd h "(n, buf)"] t by (simp add: cell_def)
  have spark: "rnd m mod 100 < 60 \<longrightarrow>
      uint (cell w (snd (seed_row_term rnd w h (n, buf))) (h - 1) x) = spark_value (rnd (m + 1))"
    using v inb by (simp add: seed_cell_term_spark uint_spark_value)
  have cool: "\<not> rnd m mod 100 < 60 \<and> 10 < uint (cell w buf (h - 1) x) \<longrightarrow>
      uint (cell w (snd (seed_row_term rnd w h (n, buf))) (h - 1) x) = uint (cell w buf (h - 1) x) - 5"
  proof
    assume a: "\<not> rnd m mod 100 < 60 \<and> 10 < uint (cell w buf (h - 1) x)"
    then have gt: "10 < uint (b ! (?l + x))" using old by (simp add: cell_def)
    then have "seed_cell_term rnd ?l x (m, b)
        = (m + 1, b[?l + x := word_of_int (cooled_value (b ! (?l + x)))])"
      using a by (simp add: seed_cell_term_cool)
    then have "cell w (snd (seed_row_term rnd w h (n, buf))) (h - 1) x
        = word_of_int (cooled_value (b ! (?l + x)))"
      using v inb by simp
    then show "uint (cell w (snd (seed_row_term rnd w h (n, buf))) (h - 1) x)
        = uint (cell w buf (h - 1) x) - 5"
      using uint_cooled_value [OF gt] old by (simp add: cooled_value_def cell_def)
  qed
  have keep: "\<not> rnd m mod 100 < 60 \<and> \<not> 10 < uint (cell w buf (h - 1) x) \<longrightarrow>
      cell w (snd (seed_row_term rnd w h (n, buf))) (h - 1) x = cell w buf (h - 1) x"
  proof
    assume a: "\<not> rnd m mod 100 < 60 \<and> \<not> 10 < uint (cell w buf (h - 1) x)"
    then have "\<not> 10 < uint (b ! (?l + x))" using old by (simp add: cell_def)
    then have "seed_cell_term rnd ?l x (m, b) = (m + 1, b)"
      using a by (simp add: seed_cell_term_keep)
    then show "cell w (snd (seed_row_term rnd w h (n, buf))) (h - 1) x = cell w buf (h - 1) x"
      using v old by (simp add: cell_def)
  qed
  show ?thesis using spark cool keep by blast
qed

subsection \<open>Decay and drift\<close>

lemma decay_gfx_range: "0 \<le> decay_gfx rv \<and> decay_gfx rv \<le> 2"
proof -
  have "rv mod 3 < 3" by simp
  then show ?thesis unfolding decay_gfx_def by linarith
qed

lemma decay_term_range: "0 \<le> decay_term rv \<and> decay_term rv \<le> 3"
proof -
  have "rv mod 4 < 4" by simp
  then show ?thesis unfolding decay_term_def COOLING_MAX_def by simp
qed

lemma drift_x_alt: "drift_x x rv = int x + (1 - int (rv mod 3))"
  by (simp add: drift_x_def)

subsection \<open>Every index is inside the buffer\<close>

text \<open>The static arrays of fire-gfx.c and fire-cube.c, zero at program start, are well-formed.\<close>

lemma wf_fire_static_arrays:
  "wf_fire FIRE_WIDTH_gfx FIRE_HEIGHT_gfx (replicate (FIRE_WIDTH_gfx * FIRE_HEIGHT_gfx) 0)
   \<and> wf_fire FIRE_WIDTH_cube FIRE_HEIGHT_cube (replicate (FIRE_WIDTH_cube * FIRE_HEIGHT_cube) 0)"
  by (simp add: wf_fire_def FIRE_WIDTH_gfx_def FIRE_HEIGHT_gfx_def FIRE_WIDTH_cube_def
      FIRE_HEIGHT_cube_def)

lemma seed_index_in_bounds:
  "wf_fire w h buf \<Longrightarrow> x < w \<Longrightarrow> (h - 1) * w + x < length buf"
proof -
  assume wf: "wf_fire w h buf" and x: "x < w"
  then have "h - 1 < h" by (simp add: wf_fire_def)
  then have "(h - 1) * w + x < w * h" using x by (rule cell_index_bound)
  then show ?thesis using wf by (simp add: wf_fire_def)
qed

lemma src_index_in_bounds:
  "wf_fire w h buf \<Longrightarrow> y + 1 < h \<Longrightarrow> x < w \<Longrightarrow> (y + 1) * w + x < length buf"
  using cell_index_bound [of "y + 1" h x w] by (simp add: wf_fire_def)

lemma dst_index_gfx_in_bounds:
  assumes "wf_fire w h buf" and "y + 1 < h" and "x < w"
  shows "y * w + nat (clamp_dst_x w (drift_x x rv)) < length buf"
proof -
  have "nat (clamp_dst_x w (drift_x x rv)) < w" using clamp_drift_near [OF assms(3)] by simp
  moreover have "y < h" using assms(2) by simp
  ultimately have "y * w + nat (clamp_dst_x w (drift_x x rv)) < w * h"
    by (intro cell_index_bound)
  then show ?thesis using assms(1) by (simp add: wf_fire_def)
qed

lemma dst_index_term_in_bounds:
  assumes "wf_fire w h buf" and "y + 1 < h"
    and "0 \<le> drift_x x rv" and "drift_x x rv < int w"
  shows "y * w + nat (drift_x x rv) < length buf"
proof -
  have "nat (drift_x x rv) < w" using assms(3,4) by linarith
  moreover have "y < h" using assms(2) by simp
  ultimately have "y * w + nat (drift_x x rv) < w * h" by (intro cell_index_bound)
  then show ?thesis using assms(1) by (simp add: wf_fire_def)
qed

lemma update_fire_term_length:
  "length (snd (update_fire_term rnd w h s)) = length (snd s)"
  using rows_term_frame [of rnd w "h - 1" "seed_row_term rnd w h s"]
    seed_row_term_frame [of rnd w h s]
  by (simp add: update_fire_term_def propagate_term_def)

lemma update_fire_gfx_length:
  "length (snd (fst (update_fire_gfx rnd w h (s, pix)))) = length (snd s)"
  using rows_gfx_frame [of rnd w "h - 1" "seed_row_gfx rnd w h s"]
    seed_row_term_frame [of rnd w h s]
  by (simp add: fst_update_fire_gfx propagate_gfx_def seed_row_gfx_eq)

lemma sint_i32_exact: "- (2 ^ 31) \<le> v \<Longrightarrow> v < 2 ^ 31 \<Longrightarrow> sint (word_of_int v :: 32 word) = v"
  by (simp add: sint_sbintrunc' signed_take_bit_int_eq_self)

lemma int_mul_exact: "0 \<le> p * q \<Longrightarrow> p * q < 2 ^ 31 \<Longrightarrow> int_mul p q = p * q"
  unfolding int_mul_def by (rule sint_i32_exact) simp_all

lemma to_size_t_exact: "0 \<le> p \<Longrightarrow> p < 2 ^ 31 \<Longrightarrow> to_size_t p = nat p"
  by (simp add: to_size_t_def)

lemma resize_buffers_changed:
  "\<not> (w = width gs \<and> h = height gs) \<Longrightarrow>
     resize_buffers gf gp w h gs =
       gs\<lparr>width := w, height := h,
          fire_buffer := calloc gf (to_size_t (int_mul w h)),
          prev_buffer := calloc gp (to_size_t (int_mul w h)),
          terminal := terminal gs @ [CHR 0x1B, CHR ''['', CHR ''2'', CHR ''J'']\<rparr>"
  unfolding resize_buffers_def by (rule if_not_P)

lemma calloc_fitting:
  assumes "0 < w" and "0 < h" and "w * h < 2 ^ 31"
  shows "calloc True (to_size_t (int_mul w h)) = Some (replicate (nat w * nat h) 0)"
proof -
  have p: "0 \<le> w * h" using assms(1,2) by simp
  have "to_size_t (int_mul w h) = nat (w * h)"
    using int_mul_exact [OF p assms(3)] to_size_t_exact [OF p assms(3)] by simp
  moreover have "nat (w * h) = nat w * nat h" using assms(1,2) by (simp add: nat_mult_distrib)
  moreover have "nat (w * h) < 2 ^ 63"
  proof -
    have "w * h < 2 ^ 63" using assms(3) by simp
    then show ?thesis using p by (simp add: nat_less_iff)
  qed
  ultimately show ?thesis by (simp add: calloc_def)
qed

lemma update_fire_after_resize:
  assumes "0 < w" and "0 < h" and "w * h < 2 ^ 31" and "\<not> (w = width gs \<and> h = height gs)"
  shows "update_fire rnd (n, resize_buffers True gp w h gs) =
     Some (fst (update_fire_term rnd (nat w) (nat h) (n, replicate (nat w * nat h) 0)),
           (resize_buffers True gp w h gs)\<lparr>fire_buffer :=
              Some (snd (update_fire_term rnd (nat w) (nat h) (n, replicate (nat w * nat h) 0)))\<rparr>)"
proof -
  have c: "calloc True (to_size_t (int_mul w h)) = Some (replicate (nat w * nat h) 0)"
    using assms(1,2,3) by (rule calloc_fitting)
  have l: "int (nat w * nat h) = w * h" using assms(1,2) by simp
  show ?thesis
    unfolding resize_buffers_changed [OF assms(4)]
    using assms(1,2,3) c l by (simp add: update_fire_def split: prod.splits)
qed

lemma update_fire_after_failed_calloc:
  assumes "0 < w" and "\<not> (w = width gs \<and> h = height gs)"
  shows "update_fire rnd (n, resize_buffers False gp w h gs) = None"
  unfolding resize_buffers_changed [OF assms(2)]
  using assms(1) by (simp add: update_fire_def calloc_def)

lemma update_fire_after_oversize:
  assumes "0 < w" and "2 ^ 31 \<le> w * h" and "\<not> (w = width gs \<and> h = height gs)"
  shows "update_fire rnd (n, resize_buffers gf gp w h gs) = None"
  unfolding resize_buffers_changed [OF assms(3)]
  using assms(1,2) by (simp add: update_fire_def split: option.splits)

subsection \<open>Where the value of a cell comes from\<close>

lemma row_loop_member:
  assumes loc: "\<And>x s. x < w \<Longrightarrow> snd (f x s) = snd s \<or>
      (\<exists>d v. d < w \<and> d \<le> x + 1 \<and> x \<le> d + 1 \<and> snd (f x s) = (snd s)[y * w + d := v])"
    and step: "\<And>k s. k < w \<Longrightarrow>
        snd (f k s) = snd s
      \<or> snd (f k s) = (snd s)[y * w + k := 0]
      \<or> (\<exists>c d. c < w \<and> c \<le> k + 1 \<and> k \<le> c + 1 \<and> 0 \<le> d \<and> d \<le> D
            \<and> uint (snd s ! ((y + 1) * w + k)) \<noteq> 0
            \<and> snd (f k s) = (snd s)[y * w + c :=
                  word_of_int (decayed (uint (snd s ! ((y + 1) * w + k))) d)])"
    and x: "x < w" and len: "y * w + x < length (snd s)"
  shows "snd (fold f [0..<w] s) ! (y * w + x) = snd s ! (y * w + x)
     \<or> snd (fold f [0..<w] s) ! (y * w + x) = 0
     \<or> (\<exists>k d. k < w \<and> k \<le> x + 1 \<and> x \<le> k + 1 \<and> 0 \<le> d \<and> d \<le> D
           \<and> uint (snd s ! ((y + 1) * w + k)) \<noteq> 0
           \<and> snd (fold f [0..<w] s) ! (y * w + x)
               = word_of_int (decayed (uint (snd s ! ((y + 1) * w + k))) d))"
proof -
  let ?A = "\<lambda>v. v = snd s ! (y * w + x) \<or> v = 0
     \<or> (\<exists>k d. k < w \<and> k \<le> x + 1 \<and> x \<le> k + 1 \<and> 0 \<le> d \<and> d \<le> D
           \<and> uint (snd s ! ((y + 1) * w + k)) \<noteq> 0
           \<and> v = word_of_int (decayed (uint (snd s ! ((y + 1) * w + k))) d))"
  have "?A (snd (fold f [0..<w] s) ! (y * w + x))"
  proof (rule fold_upt_invariant [where P = "\<lambda>k t. ?A (snd t ! (y * w + x))"])
    show "?A (snd s ! (y * w + x))" by simp
  next
    fix k
    let ?t = "fold f [0..<k] s"
    assume k: "k < w" and inv: "?A (snd ?t ! (y * w + x))"
    have fr: "length (snd ?t) = length (snd s) \<and>
        (\<forall>i. i < y * w \<or> (y + 1) * w \<le> i \<longrightarrow> snd ?t ! i = snd s ! i)"
      using row_loop_frame [of w f y k s] loc k by simp
    then have inb: "y * w + x < length (snd ?t)" using len by simp
    have below: "snd ?t ! ((y + 1) * w + k) = snd s ! ((y + 1) * w + k)" using fr by simp
    from step [OF k, of ?t]
    consider (same) "snd (f k ?t) = snd ?t"
      | (zero) "snd (f k ?t) = (snd ?t)[y * w + k := 0]"
      | (heat) c d where "c < w" "c \<le> k + 1" "k \<le> c + 1" "0 \<le> d" "d \<le> D"
          "uint (snd ?t ! ((y + 1) * w + k)) \<noteq> 0"
          "snd (f k ?t) = (snd ?t)[y * w + c :=
              word_of_int (decayed (uint (snd ?t ! ((y + 1) * w + k))) d)]"
      by blast
    then show "?A (snd (f k ?t) ! (y * w + x))"
    proof cases
      case same
      then show ?thesis using inv by simp
    next
      case zero
      show ?thesis
      proof (cases "k = x")
        case True
        then have "snd (f k ?t) ! (y * w + x) = 0" using zero inb by simp
        then show ?thesis by simp
      next
        case False
        then have "snd (f k ?t) ! (y * w + x) = snd ?t ! (y * w + x)" using zero by simp
        then show ?thesis using inv by simp
      qed
    next
      case heat
      show ?thesis
      proof (cases "c = x")
        case True
        then have "snd (f k ?t) ! (y * w + x)
            = word_of_int (decayed (uint (snd s ! ((y + 1) * w + k))) d)"
          using heat(7) inb below by simp
        moreover have "k < w \<and> k \<le> x + 1 \<and> x \<le> k + 1 \<and> 0 \<le> d \<and> d \<le> D
            \<and> uint (snd s ! ((y + 1) * w + k)) \<noteq> 0"
          using k heat True below by simp
        ultimately show ?thesis by blast
      next
        case False
        then have "snd (f k ?t) ! (y * w + x) = snd ?t ! (y * w + x)" using heat(7) by simp
        then show ?thesis using inv by simp
      qed
    qed
  qed
  then show ?thesis .
qed

lemma prop_cell_gfx_step:
  assumes "k < w"
  shows "snd (prop_cell_gfx rnd w y k s) = snd s
      \<or> snd (prop_cell_gfx rnd w y k s) = (snd s)[y * w + k := 0]
      \<or> (\<exists>c d. c < w \<and> c \<le> k + 1 \<and> k \<le> c + 1 \<and> 0 \<le> d \<and> d \<le> 2
            \<and> uint (snd s ! ((y + 1) * w + k)) \<noteq> 0
            \<and> snd (prop_cell_gfx rnd w y k s) = (snd s)[y * w + c :=
                  word_of_int (decayed (uint (snd s ! ((y + 1) * w + k))) d)])"
proof (cases s)
  case (Pair n buf)
  show ?thesis
  proof (cases "uint (buf ! ((y + 1) * w + k)) = 0")
    case True
    then show ?thesis using Pair by (simp add: prop_cell_gfx_zero)
  next
    case False
    let ?c = "nat (clamp_dst_x w (drift_x k (rnd (n + 1))))"
    have "?c < w \<and> ?c \<le> k + 1 \<and> k \<le> ?c + 1" using clamp_drift_near [OF assms] by simp
    moreover have "0 \<le> decay_gfx (rnd n) \<and> decay_gfx (rnd n) \<le> 2" by (rule decay_gfx_range)
    moreover have "snd (prop_cell_gfx rnd w y k s) = (snd s)[y * w + ?c :=
        word_of_int (decayed (uint (snd s ! ((y + 1) * w + k))) (decay_gfx (rnd n)))]"
      using False Pair by (simp add: prop_cell_gfx_nonzero)
    moreover have "uint (snd s ! ((y + 1) * w + k)) \<noteq> 0" using False Pair by simp
    ultimately show ?thesis by blast
  qed
qed

lemma prop_cell_term_step:
  assumes "k < w"
  shows "snd (prop_cell_term rnd w y k s) = snd s
      \<or> snd (prop_cell_term rnd w y k s) = (snd s)[y * w + k := 0]
      \<or> (\<exists>c d. c < w \<and> c \<le> k + 1 \<and> k \<le> c + 1 \<and> 0 \<le> d \<and> d \<le> 3
            \<and> uint (snd s ! ((y + 1) * w + k)) \<noteq> 0
            \<and> snd (prop_cell_term rnd w y k s) = (snd s)[y * w + c :=
                  word_of_int (decayed (uint (snd s ! ((y + 1) * w + k))) d)])"
proof (cases s)
  case (Pair n buf)
  show ?thesis
  proof (cases "uint (buf ! ((y + 1) * w + k)) = 0")
    case True
    then show ?thesis using Pair by (simp add: prop_cell_term_zero)
  next
    case nz: False
    show ?thesis
    proof (cases "0 \<le> drift_x k (rnd (n + 1)) \<and> drift_x k (rnd (n + 1)) < int w")
      case True
      let ?c = "nat (drift_x k (rnd (n + 1)))"
      have "?c < w \<and> ?c \<le> k + 1 \<and> k \<le> ?c + 1"
        using True drift_x_range [of k "rnd (n + 1)"] by linarith
      moreover have "0 \<le> decay_term (rnd n) \<and> decay_term (rnd n) \<le> 3"
        by (rule decay_term_range)
      moreover have "snd (prop_cell_term rnd w y k s) = (snd s)[y * w + ?c :=
          word_of_int (decayed (uint (snd s ! ((y + 1) * w + k))) (decay_term (rnd n)))]"
        using nz True Pair by (simp add: prop_cell_term_inside)
      moreover have "uint (snd s ! ((y + 1) * w + k)) \<noteq> 0" using nz Pair by simp
      ultimately show ?thesis by blast
    next
      case False
      then show ?thesis using nz Pair prop_cell_term_outside [of buf y w k rnd n] by simp
    qed
  qed
qed

lemma uint_heat_value:
  "0 \<le> d \<Longrightarrow> v = word_of_int (decayed (uint (c :: 8 word)) d) \<Longrightarrow>
     uint (v :: 8 word) = max 0 (uint c - d)"
  using uint_decayed [of d c] by (simp add: decayed_eq_max)

lemma update_term_member:
  assumes wf: "wf_fire w h buf" and y: "y + 1 < h" and x: "x < w"
  shows "cell w (snd (update_fire_term rnd w h (n, buf))) y x = cell w buf y x
     \<or> cell w (snd (update_fire_term rnd w h (n, buf))) y x = 0
     \<or> (\<exists>k d. k < w \<and> k \<le> x + 1 \<and> x \<le> k + 1 \<and> 0 \<le> d \<and> d \<le> 3
           \<and> uint (cell w (snd (seed_row_term rnd w h (n, buf))) (y + 1) k) \<noteq> 0
           \<and> uint (cell w (snd (update_fire_term rnd w h (n, buf))) y x)
               = max 0 (uint (cell w (snd (seed_row_term rnd w h (n, buf))) (y + 1) k) - d))"
proof -
  let ?S = "seed_row_term rnd w h (n, buf)"
  let ?T = "fold (prop_row_term rnd w) [0..<y] ?S"
  let ?R = "fold (prop_cell_term rnd w y) [0..<w] ?T"
  have T: "length (snd ?T) = length (snd ?S) \<and> (\<forall>i. y * w \<le> i \<longrightarrow> snd ?T ! i = snd ?S ! i)"
    by (rule rows_term_frame)
  have len: "length (snd ?T) = w * h"
    using T seed_row_term_frame [of rnd w h "(n, buf)"] wf by (simp add: wf_fire_def)
  have "y * w + x < w * h" using y x by (intro cell_index_bound) simp_all
  then have inb: "y * w + x < length (snd ?T)" using len by simp
  have fin: "cell w (snd (update_fire_term rnd w h (n, buf))) y x = snd ?R ! (y * w + x)"
    using propagate_term_row [OF y x, of rnd ?S]
    by (simp add: update_fire_term_def cell_def prop_row_term_def)
  have old: "snd ?T ! (y * w + x) = cell w buf y x"
    using T seed_row_term_row [OF y x, of rnd "(n, buf)"] by (simp add: cell_def)
  have below: "snd ?T ! ((y + 1) * w + k) = cell w (snd ?S) (y + 1) k" for k
    using T by (simp add: cell_def)
  have "snd ?R ! (y * w + x) = snd ?T ! (y * w + x)
     \<or> snd ?R ! (y * w + x) = 0
     \<or> (\<exists>k d. k < w \<and> k \<le> x + 1 \<and> x \<le> k + 1 \<and> 0 \<le> d \<and> d \<le> 3
           \<and> uint (snd ?T ! ((y + 1) * w + k)) \<noteq> 0
           \<and> snd ?R ! (y * w + x)
               = word_of_int (decayed (uint (snd ?T ! ((y + 1) * w + k))) d))"
    by (rule row_loop_member [where w = w and f = "prop_cell_term rnd w y", OF _ _ x inb])
      (use prop_cell_term_local prop_cell_term_step in blast)+
  then consider (same) "snd ?R ! (y * w + x) = snd ?T ! (y * w + x)"
    | (zero) "snd ?R ! (y * w + x) = 0"
    | (heat) k d where "k < w" "k \<le> x + 1" "x \<le> k + 1" "0 \<le> d" "d \<le> 3"
        "uint (snd ?T ! ((y + 1) * w + k)) \<noteq> 0"
        "snd ?R ! (y * w + x) = word_of_int (decayed (uint (snd ?T ! ((y + 1) * w + k))) d)"
    by blast
  then show ?thesis
  proof cases
    case same
    then show ?thesis using fin old by simp
  next
    case zero
    then show ?thesis using fin by simp
  next
    case heat
    have "uint (snd ?R ! (y * w + x)) = max 0 (uint (snd ?T ! ((y + 1) * w + k)) - d)"
      using heat(4,7) by (rule uint_heat_value)
    then have "uint (cell w (snd (update_fire_term rnd w h (n, buf))) y x)
        = max 0 (uint (cell w (snd ?S) (y + 1) k) - d)"
      using fin below by simp
    moreover have "uint (cell w (snd ?S) (y + 1) k) \<noteq> 0" using heat(6) below by simp
    ultimately show ?thesis using heat(1-5) by blast
  qed
qed

lemma update_gfx_member:
  assumes wf: "wf_fire w h buf" and y: "y + 1 < h" and x: "x < w"
  shows "cell w (snd (fst (update_fire_gfx rnd w h ((n, buf), pix)))) y x = cell w buf y x
     \<or> cell w (snd (fst (update_fire_gfx rnd w h ((n, buf), pix)))) y x = 0
     \<or> (\<exists>k d. k < w \<and> k \<le> x + 1 \<and> x \<le> k + 1 \<and> 0 \<le> d \<and> d \<le> 2
           \<and> uint (cell w (snd (seed_row_gfx rnd w h (n, buf))) (y + 1) k) \<noteq> 0
           \<and> uint (cell w (snd (fst (update_fire_gfx rnd w h ((n, buf), pix)))) y x)
               = max 0 (uint (cell w (snd (seed_row_gfx rnd w h (n, buf))) (y + 1) k) - d))"
proof -
  let ?S = "seed_row_gfx rnd w h (n, buf)"
  let ?T = "fold (prop_row_gfx rnd w) [0..<y] ?S"
  let ?R = "fold (prop_cell_gfx rnd w y) [0..<w] ?T"
  have T: "length (snd ?T) = length (snd ?S) \<and> (\<forall>i. y * w \<le> i \<longrightarrow> snd ?T ! i = snd ?S ! i)"
    by (rule rows_gfx_frame)
  have len: "length (snd ?T) = w * h"
    using T seed_row_term_frame [of rnd w h "(n, buf)"] wf
    by (simp add: wf_fire_def seed_row_gfx_eq)
  have "y * w + x < w * h" using y x by (intro cell_index_bound) simp_all
  then have inb: "y * w + x < length (snd ?T)" using len by simp
  have fin: "cell w (snd (fst (update_fire_gfx rnd w h ((n, buf), pix)))) y x = snd ?R ! (y * w + x)"
    using propagate_gfx_row [OF y x, of rnd ?S]
    by (simp add: fst_update_fire_gfx cell_def prop_row_gfx_def)
  have old: "snd ?T ! (y * w + x) = cell w buf y x"
    using T seed_row_term_row [OF y x, of rnd "(n, buf)"] by (simp add: cell_def seed_row_gfx_eq)
  have below: "snd ?T ! ((y + 1) * w + k) = cell w (snd ?S) (y + 1) k" for k
    using T by (simp add: cell_def)
  have "snd ?R ! (y * w + x) = snd ?T ! (y * w + x)
     \<or> snd ?R ! (y * w + x) = 0
     \<or> (\<exists>k d. k < w \<and> k \<le> x + 1 \<and> x \<le> k + 1 \<and> 0 \<le> d \<and> d \<le> 2
           \<and> uint (snd ?T ! ((y + 1) * w + k)) \<noteq> 0
           \<and> snd ?R ! (y * w + x)
               = word_of_int (decayed (uint (snd ?T ! ((y + 1) * w + k))) d))"
    by (rule row_loop_member [where w = w and f = "prop_cell_gfx rnd w y", OF _ _ x inb])
      (use prop_cell_gfx_local prop_cell_gfx_step in blast)+
  then consider (same) "snd ?R ! (y * w + x) = snd ?T ! (y * w + x)"
    | (zero) "snd ?R ! (y * w + x) = 0"
    | (heat) k d where "k < w" "k \<le> x + 1" "x \<le> k + 1" "0 \<le> d" "d \<le> 2"
        "uint (snd ?T ! ((y + 1) * w + k)) \<noteq> 0"
        "snd ?R ! (y * w + x) = word_of_int (decayed (uint (snd ?T ! ((y + 1) * w + k))) d)"
    by blast
  then show ?thesis
  proof cases
    case same
    then show ?thesis using fin old by simp
  next
    case zero
    then show ?thesis using fin by simp
  next
    case heat
    have "uint (snd ?R ! (y * w + x)) = max 0 (uint (snd ?T ! ((y + 1) * w + k)) - d)"
      using heat(4,7) by (rule uint_heat_value)
    then have "uint (cell w (snd (fst (update_fire_gfx rnd w h ((n, buf), pix)))) y x)
        = max 0 (uint (cell w (snd ?S) (y + 1) k) - d)"
      using fin below by simp
    moreover have "uint (cell w (snd ?S) (y + 1) k) \<noteq> 0" using heat(6) below by simp
    ultimately show ?thesis using heat(1-5) by blast
  qed
qed

section \<open>The claims about \<^verbatim>\<open>update_fire\<close> and \<^verbatim>\<open>resize_buffers\<close>\<close>

text \<open>
  Claim C1, as amended.  For a row \<open>y\<close> above the source row and a column \<open>x\<close>: if the
  cell below, \<open>grid[y+1][x]\<close>, is zero when the propagation starts, and so is its right
  neighbour \<open>grid[y+1][x+1]\<close> unless \<open>x\<close> is the last column, then \<open>grid[y][x]\<close> is zero
  after the call.  When the propagation starts, a row below that is not the source row
  (\<open>y + 2 < h\<close>) still holds its values from before the call; the source row holds
  the values the seed phase of this call gave it.
\<close>

theorem C1_zero_below_and_right_stays_zero:
  assumes "wf_fire w h buf" and "y + 1 < h" and "x < w"
  shows "(cell w (snd (seed_row_term rnd w h (n, buf))) (y + 1) x = 0
      \<and> (x + 1 < w \<longrightarrow> cell w (snd (seed_row_term rnd w h (n, buf))) (y + 1) (x + 1) = 0)
      \<longrightarrow> cell w (snd (update_fire_term rnd w h (n, buf))) y x = 0)
    \<and> (cell w (snd (seed_row_gfx rnd w h (n, buf))) (y + 1) x = 0
      \<and> (x + 1 < w \<longrightarrow> cell w (snd (seed_row_gfx rnd w h (n, buf))) (y + 1) (x + 1) = 0)
      \<longrightarrow> cell w (snd (fst (update_fire_gfx rnd w h ((n, buf), pix)))) y x = 0)
    \<and> (y + 2 < h \<longrightarrow> (\<forall>c<w.
          cell w (snd (seed_row_term rnd w h (n, buf))) (y + 1) c = cell w buf (y + 1) c
        \<and> cell w (snd (seed_row_gfx rnd w h (n, buf))) (y + 1) c = cell w buf (y + 1) c))"
proof (intro conjI impI allI)
  assume "cell w (snd (seed_row_term rnd w h (n, buf))) (y + 1) x = 0
      \<and> (x + 1 < w \<longrightarrow> cell w (snd (seed_row_term rnd w h (n, buf))) (y + 1) (x + 1) = 0)"
  then show "cell w (snd (update_fire_term rnd w h (n, buf))) y x = 0"
    using update_term_zero [OF assms] by blast
next
  assume "cell w (snd (seed_row_gfx rnd w h (n, buf))) (y + 1) x = 0
      \<and> (x + 1 < w \<longrightarrow> cell w (snd (seed_row_gfx rnd w h (n, buf))) (y + 1) (x + 1) = 0)"
  then show "cell w (snd (fst (update_fire_gfx rnd w h ((n, buf), pix)))) y x = 0"
    using update_gfx_zero [OF assms] by blast
next
  fix c
  assume "y + 2 < h" "c < w"
  then show "cell w (snd (seed_row_term rnd w h (n, buf))) (y + 1) c = cell w buf (y + 1) c"
    using seed_row_term_above [of y h c w rnd "(n, buf)"] by simp
next
  fix c
  assume "y + 2 < h" "c < w"
  then show "cell w (snd (seed_row_gfx rnd w h (n, buf))) (y + 1) c = cell w buf (y + 1) c"
    using seed_row_term_above [of y h c w rnd "(n, buf)"] by (simp add: seed_row_gfx_eq)
qed

theorem C1_witness:
  "wf_fire 2 3 [1, 2, 0, 0, 0, 0] \<and> (0::nat) + 1 < 3 \<and> (0::nat) < 2
   \<and> cell 2 (snd (seed_row_term (scripted [] 99) 2 3 (0, [1, 2, 0, 0, 0, 0]))) (0 + 1) 0 = 0
   \<and> cell 2 (snd (seed_row_term (scripted [] 99) 2 3 (0, [1, 2, 0, 0, 0, 0]))) (0 + 1) (0 + 1) = 0
   \<and> cell 2 [1, 2, 0, 0, 0, 0] 0 0 = 1
   \<and> cell 2 (snd (update_fire_term (scripted [] 99) 2 3 (0, [1, 2, 0, 0, 0, 0]))) 0 0 = 0
   \<and> cell 2 (snd (fst (update_fire_gfx (scripted [] 99) 2 3 ((0, [1, 2, 0, 0, 0, 0]), [0, 0, 0, 0, 0, 0])))) 0 0 = 0"
proof -
  let ?buf = "[1, 2, 0, 0, 0, 0] :: 8 word list"
  have wf: "wf_fire 2 3 ?buf" by (simp add: wf_fire_def)
  have y: "(0::nat) + 1 < 3" and x: "(0::nat) < 2" by simp_all
  have b: "cell 2 (snd (seed_row_term (scripted [] 99) 2 3 (0, ?buf))) (0 + 1) 0 = 0" by code_simp
  have r: "cell 2 (snd (seed_row_term (scripted [] 99) 2 3 (0, ?buf))) (0 + 1) (0 + 1) = 0" by code_simp
  have bg: "cell 2 (snd (seed_row_gfx (scripted [] 99) 2 3 (0, ?buf))) (0 + 1) 0 = 0" by code_simp
  have rg: "cell 2 (snd (seed_row_gfx (scripted [] 99) 2 3 (0, ?buf))) (0 + 1) (0 + 1) = 0" by code_simp
  have old: "cell 2 ?buf 0 0 = 1" by (simp add: cell_def)
  note th = C1_zero_below_and_right_stays_zero [OF wf y x, of "scripted [] 99" 0 "[0, 0, 0, 0, 0, 0]"]
  from th b r have t: "cell 2 (snd (update_fire_term (scripted [] 99) 2 3 (0, ?buf))) 0 0 = 0"
    by blast
  from th bg rg have g: "cell 2 (snd (fst (update_fire_gfx (scripted [] 99) 2 3 ((0, ?buf), [0, 0, 0, 0, 0, 0])))) 0 0 = 0"
    by blast
  show ?thesis using wf y x b r old t g by blast
qed

theorem C1_counterexample:
  "cell 2 [0, 0, 0, 5, 0, 0] 1 0 = 0
   \<and> cell 2 (snd (update_fire_term (scripted [99, 99, 0] 2) 2 3
        (0, [0, 0, 0, 5, 0, 0]))) 0 0 = 3
   \<and> cell 2 (snd (fst (update_fire_gfx (scripted [99, 99, 0] 2) 2 3
        ((0, [0, 0, 0, 5, 0, 0]), [0, 0, 0, 0, 0, 0])))) 0 0 = 5"
  by code_simp

text \<open>
  Claim C2, as amended.  For a nonzero cell below, with \<open>k = 1 - rand() % 3\<close> in
  \<open>{-1, 0, 1}\<close>: fire-gfx.c and fire-cube.c always store \<open>max(0, val - d)\<close> at column
  \<open>clamp(x + k, 0, w - 1)\<close>, which is inside the row; fire.c stores it at column
  \<open>x + k\<close> when that column is inside the row and stores nothing otherwise.
\<close>

theorem C2_drift_store_clamped_or_skipped:
  assumes "wf_fire w h buf" and "y + 1 < h" and "x < w"
    and "uint (cell w buf (y + 1) x) \<noteq> 0"
    and "k = 1 - int (rnd (n + 1) mod 3)"
  shows "(k = - 1 \<or> k = 0 \<or> k = 1)
    \<and> prop_cell_gfx rnd w y x (n, buf) =
        (n + 2, buf[y * w + nat (clamp (int x + k) 0 (int w - 1)) :=
                     word_of_int (max 0 (uint (cell w buf (y + 1) x) - decay_gfx (rnd n)))])
    \<and> 0 \<le> clamp (int x + k) 0 (int w - 1) \<and> clamp (int x + k) 0 (int w - 1) < int w
    \<and> y * w + nat (clamp (int x + k) 0 (int w - 1)) < length buf
    \<and> (0 \<le> int x + k \<and> int x + k < int w \<longrightarrow>
          prop_cell_term rnd w y x (n, buf) =
            (n + 2, buf[y * w + nat (int x + k) :=
                         word_of_int (max 0 (uint (cell w buf (y + 1) x) - decay_term (rnd n)))]))
    \<and> (\<not> (0 \<le> int x + k \<and> int x + k < int w) \<longrightarrow>
          prop_cell_term rnd w y x (n, buf) = (n + 2, buf))"
proof -
  have w: "0 < w" using assms(1) by (simp add: wf_fire_def)
  have nz: "uint (buf ! ((y + 1) * w + x)) \<noteq> 0" using assms(4) by (simp add: cell_def)
  have d: "drift_x x (rnd (n + 1)) = int x + k" using assms(5) by (simp add: drift_x_alt)
  have "rnd (n + 1) mod 3 < 3" by simp
  then have "rnd (n + 1) mod 3 = 0 \<or> rnd (n + 1) mod 3 = 1 \<or> rnd (n + 1) mod 3 = 2"
    by linarith
  then have k: "k = - 1 \<or> k = 0 \<or> k = 1" using assms(5) by auto
  have c: "clamp_dst_x w (int x + k) = clamp (int x + k) 0 (int w - 1)"
    using w by (rule clamp_dst_x_eq_clamp)
  have r: "0 \<le> clamp (int x + k) 0 (int w - 1) \<and> clamp (int x + k) 0 (int w - 1) < int w"
    using clamp_dst_x_range [OF w, of "int x + k"] c by simp
  then have "nat (clamp (int x + k) 0 (int w - 1)) < w" by linarith
  moreover have "y < h" using assms(2) by simp
  ultimately have "y * w + nat (clamp (int x + k) 0 (int w - 1)) < w * h"
    by (intro cell_index_bound)
  then have inb: "y * w + nat (clamp (int x + k) 0 (int w - 1)) < length buf"
    using assms(1) by (simp add: wf_fire_def)
  have g: "prop_cell_gfx rnd w y x (n, buf) =
        (n + 2, buf[y * w + nat (clamp (int x + k) 0 (int w - 1)) :=
                     word_of_int (max 0 (uint (cell w buf (y + 1) x) - decay_gfx (rnd n)))])"
    using prop_cell_gfx_nonzero [OF nz, of rnd n] d c by (simp add: decayed_eq_max cell_def)
  have t1: "0 \<le> int x + k \<and> int x + k < int w \<longrightarrow>
          prop_cell_term rnd w y x (n, buf) =
            (n + 2, buf[y * w + nat (int x + k) :=
                         word_of_int (max 0 (uint (cell w buf (y + 1) x) - decay_term (rnd n)))])"
    using prop_cell_term_inside [OF nz, of rnd n] d by (simp add: decayed_eq_max cell_def)
  have t2: "\<not> (0 \<le> int x + k \<and> int x + k < int w) \<longrightarrow>
          prop_cell_term rnd w y x (n, buf) = (n + 2, buf)"
    using prop_cell_term_outside [OF nz, where rnd = rnd and n = n] d by simp
  show ?thesis using k g r inb t1 t2 by blast
qed

theorem C2_witness:
  "wf_fire 2 2 [7, 9, 200, 1] \<and> (0::nat) + 1 < 2 \<and> (0::nat) < 2
   \<and> uint (cell 2 [7, 9, 200, 1] (0 + 1) 0) \<noteq> 0
   \<and> (- 1 :: int) = 1 - int (scripted [] 2 (0 + 1) mod 3)
   \<and> prop_cell_gfx (scripted [] 2) 2 0 0 (0, [7, 9, 200, 1]) = (2, [198, 9, 200, 1])
   \<and> prop_cell_term (scripted [] 2) 2 0 0 (0, [7, 9, 200, 1]) = (2, [7, 9, 200, 1])"
proof -
  have wf: "wf_fire 2 2 [7, 9, 200, 1]" by (simp add: wf_fire_def)
  have y: "(0::nat) + 1 < 2" and x: "(0::nat) < 2" by simp_all
  have nz: "uint (cell 2 [7, 9, 200, 1] (0 + 1) 0) \<noteq> 0" by (simp add: cell_def)
  have k: "(- 1 :: int) = 1 - int (scripted [] 2 (0 + 1) mod 3)" by (simp add: scripted_def)
  note th = C2_drift_store_clamped_or_skipped
    [where rnd = "scripted [] 2" and n = 0, OF wf y x nz k]
  have g: "prop_cell_gfx (scripted [] 2) 2 0 0 (0, [7, 9, 200, 1]) = (2, [198, 9, 200, 1])"
    using th by (simp add: clamp_def cell_def decay_gfx_def scripted_def)
  have t: "prop_cell_term (scripted [] 2) 2 0 0 (0, [7, 9, 200, 1]) = (2, [7, 9, 200, 1])"
    using th by simp
  show ?thesis using wf nz k g t by simp
qed

theorem C2_counterexample:
  "uint (cell 2 [7, 9, 200, 1] (0 + 1) 0) = 200
   \<and> prop_cell_term (scripted [] 2) 2 0 0 (0, [7, 9, 200, 1]) = (2, [7, 9, 200, 1])
   \<and> snd (prop_cell_term (scripted [] 2) 2 0 0 (0, [7, 9, 200, 1])) \<noteq>
        [7, 9, 200, 1][0 * 2 + nat (clamp (int 0 + (1 - int (scripted [] 2 (0 + 1) mod 3))) 0 (int 2 - 1)) :=
          word_of_int (max 0 (uint (cell 2 [7, 9, 200, 1] (0 + 1) 0) - decay_term ((scripted [] 2) 0)))]"
  by (simp add: cell_def prop_cell_term_def drift_x_def decay_term_def COOLING_MAX_def
      clamp_def Let_def scripted_def)

text \<open>
  Claim C3, as amended.  fire.c draws the decay as \<^verbatim>\<open>rand() % (COOLING_MAX + 1)\<close> with
  \<^verbatim>\<open>COOLING_MAX\<close> 3: every value of [0, 3] and no other occurs, each once in any four
  consecutive values of \<^verbatim>\<open>rand()\<close>, and a decrement of exactly 3 happens.  fire-gfx.c
  and fire-cube.c draw \<^verbatim>\<open>rand() % 3\<close>: every value of [0, 2] and no other, so never 3.
\<close>

theorem C3_decay_ranges_of_the_variants:
  "int COOLING_MAX = 3
   \<and> (\<forall>rv. 0 \<le> decay_term rv \<and> decay_term rv \<le> int COOLING_MAX)
   \<and> decay_term 0 = 0 \<and> decay_term 1 = 1 \<and> decay_term 2 = 2 \<and> decay_term 3 = 3
   \<and> (\<forall>rv. decay_term (rv + 4) = decay_term rv)
   \<and> prop_cell_term (scripted [3] 1) 1 0 0 (0, [0, 10]) = (2, [7, 10])
   \<and> (\<forall>rv. 0 \<le> decay_gfx rv \<and> decay_gfx rv \<le> 2)
   \<and> decay_gfx 0 = 0 \<and> decay_gfx 1 = 1 \<and> decay_gfx 2 = 2
   \<and> (\<forall>rv. decay_gfx (rv + 3) = decay_gfx rv)
   \<and> prop_cell_gfx (scripted [3] 1) 1 0 0 (0, [0, 10]) = (2, [10, 10])"
proof -
  have a: "int COOLING_MAX = 3" by (simp add: COOLING_MAX_def)
  have b: "\<forall>rv. 0 \<le> decay_term rv \<and> decay_term rv \<le> int COOLING_MAX"
    using decay_term_range by (simp add: COOLING_MAX_def)
  have c: "decay_term 0 = 0 \<and> decay_term 1 = 1 \<and> decay_term 2 = 2 \<and> decay_term 3 = 3"
    by (simp add: decay_term_def COOLING_MAX_def)
  have d: "\<forall>rv. decay_term (rv + 4) = decay_term rv"
    by (simp add: decay_term_def COOLING_MAX_def)
  have e: "prop_cell_term (scripted [3] 1) 1 0 0 (0, [0, 10]) = (2, [7, 10])"
    by (simp add: prop_cell_term_def drift_x_def decay_term_def decayed_def COOLING_MAX_def
        Let_def scripted_def)
  have f: "\<forall>rv. 0 \<le> decay_gfx rv \<and> decay_gfx rv \<le> 2"
    using decay_gfx_range by simp
  have g: "decay_gfx 0 = 0 \<and> decay_gfx 1 = 1 \<and> decay_gfx 2 = 2"
    by (simp add: decay_gfx_def)
  have h: "\<forall>rv. decay_gfx (rv + 3) = decay_gfx rv"
    by (simp add: decay_gfx_def)
  have i: "prop_cell_gfx (scripted [3] 1) 1 0 0 (0, [0, 10]) = (2, [10, 10])"
    by (simp add: prop_cell_gfx_def drift_x_def clamp_dst_x_def decay_gfx_def decayed_def
        Let_def scripted_def)
  show ?thesis using a b c d e f g h i by blast
qed

theorem C3_counterexample: "\<not> (\<exists>rv. decay_gfx rv = 3)"
proof
  assume "\<exists>rv. decay_gfx rv = 3"
  then obtain rv where "decay_gfx rv = 3" by blast
  then show False using decay_gfx_range [of rv] by simp
qed

text \<open>
  Claim C4, as amended.  The sweep is in place, on the one buffer.  When the body runs
  for row \<open>y\<close> and column \<open>x\<close>, the cell below that it reads, \<open>grid[y+1][x]\<close>, holds the
  value the seed phase left there: for the row above the source row that is the value
  seeded earlier in this call, and for every higher row (\<open>y + 2 < h\<close>) it is still the
  value from before the call, because row \<open>y + 1\<close> is written only later in the sweep.
\<close>

theorem C4_cell_below_is_read_before_its_own_update:
  assumes "wf_fire w h buf" and "y + 1 < h" and "x < w"
  shows "cell w (snd (prop_at_term rnd w h (n, buf) y x)) (y + 1) x
           = cell w (snd (seed_row_term rnd w h (n, buf))) (y + 1) x
    \<and> cell w (snd (prop_at_gfx rnd w h (n, buf) y x)) (y + 1) x
           = cell w (snd (seed_row_gfx rnd w h (n, buf))) (y + 1) x
    \<and> (y + 2 < h \<longrightarrow>
          cell w (snd (prop_at_term rnd w h (n, buf) y x)) (y + 1) x = cell w buf (y + 1) x
        \<and> cell w (snd (prop_at_gfx rnd w h (n, buf) y x)) (y + 1) x = cell w buf (y + 1) x)
    \<and> prop_at_term rnd w h (n, buf) y (Suc x)
           = prop_cell_term rnd w y x (prop_at_term rnd w h (n, buf) y x)
    \<and> prop_at_gfx rnd w h (n, buf) y (Suc x)
           = prop_cell_gfx rnd w y x (prop_at_gfx rnd w h (n, buf) y x)"
proof -
  from assms(3) have xw: "x \<le> w" by simp
  have t: "cell w (snd (prop_at_term rnd w h (n, buf) y x)) (y + 1) x
           = cell w (snd (seed_row_term rnd w h (n, buf))) (y + 1) x"
    using prop_at_term_frame [OF xw, of rnd h "(n, buf)" y] by (simp add: cell_def)
  have g: "cell w (snd (prop_at_gfx rnd w h (n, buf) y x)) (y + 1) x
           = cell w (snd (seed_row_gfx rnd w h (n, buf))) (y + 1) x"
    using prop_at_gfx_frame [OF xw, of rnd h "(n, buf)" y] by (simp add: cell_def)
  have old: "y + 2 < h \<longrightarrow>
      cell w (snd (seed_row_term rnd w h (n, buf))) (y + 1) x = cell w buf (y + 1) x"
    using seed_row_term_above [of y h x w rnd "(n, buf)"] assms(3) by simp
  show ?thesis using t g old by (simp add: seed_row_gfx_eq prop_at_term_Suc prop_at_gfx_Suc)
qed

theorem C4_witness:
  "wf_fire 1 3 [7, 9, 200] \<and> (0::nat) + 1 < 3 \<and> (0::nat) < 1
   \<and> cell 1 (snd (prop_at_term (scripted [99] 1) 1 3 (0, [7, 9, 200]) 0 0)) (0 + 1) 0
       = cell 1 [7, 9, 200] (0 + 1) 0
   \<and> cell 1 (snd (prop_at_gfx (scripted [99] 1) 1 3 (0, [7, 9, 200]) 0 0)) (0 + 1) 0
       = cell 1 [7, 9, 200] (0 + 1) 0
   \<and> cell 1 [7, 9, 200] (0 + 1) 0 = 9"
proof -
  have wf: "wf_fire 1 3 [7, 9, 200]" by (simp add: wf_fire_def)
  have y: "(0::nat) + 1 < 3" and x: "(0::nat) < 1" and y2: "(0::nat) + 2 < 3" by simp_all
  have c: "cell 1 [7, 9, 200] (0 + 1) 0 = 9" by (simp add: cell_def)
  note th = C4_cell_below_is_read_before_its_own_update
    [OF wf y x, of "scripted [99] 1" 0]
  from th y2 have
    "cell 1 (snd (prop_at_term (scripted [99] 1) 1 3 (0, [7, 9, 200]) 0 0)) (0 + 1) 0
       = cell 1 [7, 9, 200] (0 + 1) 0
     \<and> cell 1 (snd (prop_at_gfx (scripted [99] 1) 1 3 (0, [7, 9, 200]) 0 0)) (0 + 1) 0
       = cell 1 [7, 9, 200] (0 + 1) 0"
    by blast
  then show ?thesis using wf y x c by blast
qed

theorem C4_counterexample:
  "cell 1 (snd (prop_at_gfx (scripted [99] 1) 1 3 (0, [7, 9, 200]) 0 0)) 1 0 = 9
   \<and> cell 1 (snd (prop_at_term (scripted [99] 1) 1 3 (0, [7, 9, 200]) 0 0)) 1 0 = 9
   \<and> snd (fst (update_fire_gfx (scripted [99] 1) 1 3 ((0, [7, 9, 200]), [0, 0, 0])))
       = [8, 194, 195]
   \<and> snd (update_fire_term (scripted [99] 1) 1 3 (0, [7, 9, 200])) = [8, 194, 195]"
  by code_simp

text \<open>
  Claim C5.  After a call every cell of the heat grid lies in [0, 255], and no store of
  the call wraps around, because each cell holds the exact integer the code computed:
  a bottom-row cell (column \<open>x\<close>, reached after \<open>m\<close> calls of \<^verbatim>\<open>rand()\<close>) holds
  \<open>255 - rand() % 50\<close> after a spark, its old value minus 5 when that was above 10, and
  its old value otherwise; a cell \<open>grid[y][x]\<close> above the bottom row holds its old
  value, or 0, or \<open>max(0, v - d)\<close> for the seeded value \<open>v\<close> of a cell below in a
  neighbouring column and a decay \<open>d\<close> of at most 3 (fire.c) or 2 (fire-gfx.c,
  fire-cube.c).
\<close>

theorem C5_range_invariant:
  assumes "wf_fire w h buf" and "x < w" and "y + 1 < h"
    and "m = fst (seed_at_term rnd w h (n, buf) x)"
  shows "(\<forall>c \<in> set (snd (update_fire_term rnd w h (n, buf))). 0 \<le> uint c \<and> uint c \<le> 255)
    \<and> (\<forall>c \<in> set (snd (fst (update_fire_gfx rnd w h ((n, buf), pix)))). 0 \<le> uint c \<and> uint c \<le> 255)
    \<and> length (snd (update_fire_term rnd w h (n, buf))) = w * h
    \<and> length (snd (fst (update_fire_gfx rnd w h ((n, buf), pix)))) = w * h
    \<and> (rnd m mod 100 < 60 \<longrightarrow>
          uint (cell w (snd (update_fire_term rnd w h (n, buf))) (h - 1) x)
            = 255 - int (rnd (m + 1) mod 50)
        \<and> uint (cell w (snd (fst (update_fire_gfx rnd w h ((n, buf), pix)))) (h - 1) x)
            = 255 - int (rnd (m + 1) mod 50))
    \<and> (\<not> rnd m mod 100 < 60 \<and> 10 < uint (cell w buf (h - 1) x) \<longrightarrow>
          uint (cell w (snd (update_fire_term rnd w h (n, buf))) (h - 1) x)
            = uint (cell w buf (h - 1) x) - 5
        \<and> uint (cell w (snd (fst (update_fire_gfx rnd w h ((n, buf), pix)))) (h - 1) x)
            = uint (cell w buf (h - 1) x) - 5)
    \<and> (\<not> rnd m mod 100 < 60 \<and> \<not> 10 < uint (cell w buf (h - 1) x) \<longrightarrow>
          cell w (snd (update_fire_term rnd w h (n, buf))) (h - 1) x = cell w buf (h - 1) x
        \<and> cell w (snd (fst (update_fire_gfx rnd w h ((n, buf), pix)))) (h - 1) x
            = cell w buf (h - 1) x)
    \<and> (cell w (snd (update_fire_term rnd w h (n, buf))) y x = cell w buf y x
        \<or> cell w (snd (update_fire_term rnd w h (n, buf))) y x = 0
        \<or> (\<exists>k d. k < w \<and> k \<le> x + 1 \<and> x \<le> k + 1 \<and> 0 \<le> d \<and> d \<le> 3
              \<and> uint (cell w (snd (seed_row_term rnd w h (n, buf))) (y + 1) k) \<noteq> 0
              \<and> uint (cell w (snd (update_fire_term rnd w h (n, buf))) y x)
                  = max 0 (uint (cell w (snd (seed_row_term rnd w h (n, buf))) (y + 1) k) - d)))
    \<and> (cell w (snd (fst (update_fire_gfx rnd w h ((n, buf), pix)))) y x = cell w buf y x
        \<or> cell w (snd (fst (update_fire_gfx rnd w h ((n, buf), pix)))) y x = 0
        \<or> (\<exists>k d. k < w \<and> k \<le> x + 1 \<and> x \<le> k + 1 \<and> 0 \<le> d \<and> d \<le> 2
              \<and> uint (cell w (snd (seed_row_gfx rnd w h (n, buf))) (y + 1) k) \<noteq> 0
              \<and> uint (cell w (snd (fst (update_fire_gfx rnd w h ((n, buf), pix)))) y x)
                  = max 0 (uint (cell w (snd (seed_row_gfx rnd w h (n, buf))) (y + 1) k) - d)))"
proof -
  have rng: "0 \<le> uint c \<and> uint c \<le> 255" for c :: "8 word"
    using uint_le_255 [of c] by simp
  have lt: "length (snd (update_fire_term rnd w h (n, buf))) = w * h"
    using update_fire_term_length [of rnd w h "(n, buf)"] assms(1) by (simp add: wf_fire_def)
  have lg: "length (snd (fst (update_fire_gfx rnd w h ((n, buf), pix)))) = w * h"
    using update_fire_gfx_length [of rnd w h "(n, buf)" pix] assms(1) by (simp add: wf_fire_def)
  note seed = seed_row_term_value [OF assms(1,2,4)]
  have sp: "rnd m mod 100 < 60 \<longrightarrow>
          uint (cell w (snd (update_fire_term rnd w h (n, buf))) (h - 1) x)
            = 255 - int (rnd (m + 1) mod 50)
        \<and> uint (cell w (snd (fst (update_fire_gfx rnd w h ((n, buf), pix)))) (h - 1) x)
            = 255 - int (rnd (m + 1) mod 50)"
    unfolding update_term_bottom update_gfx_bottom using seed by (simp add: spark_value_def)
  have co: "\<not> rnd m mod 100 < 60 \<and> 10 < uint (cell w buf (h - 1) x) \<longrightarrow>
          uint (cell w (snd (update_fire_term rnd w h (n, buf))) (h - 1) x)
            = uint (cell w buf (h - 1) x) - 5
        \<and> uint (cell w (snd (fst (update_fire_gfx rnd w h ((n, buf), pix)))) (h - 1) x)
            = uint (cell w buf (h - 1) x) - 5"
    unfolding update_term_bottom update_gfx_bottom using seed by simp
  have ke: "\<not> rnd m mod 100 < 60 \<and> \<not> 10 < uint (cell w buf (h - 1) x) \<longrightarrow>
          cell w (snd (update_fire_term rnd w h (n, buf))) (h - 1) x = cell w buf (h - 1) x
        \<and> cell w (snd (fst (update_fire_gfx rnd w h ((n, buf), pix)))) (h - 1) x
            = cell w buf (h - 1) x"
    unfolding update_term_bottom update_gfx_bottom using seed by simp
  note mt = update_term_member [OF assms(1,3,2), of rnd n]
  note mg = update_gfx_member [OF assms(1,3,2), of rnd n pix]
  show ?thesis
    by (intro conjI ballI) (use rng lt lg sp co ke mt mg in blast)+
qed

theorem C5_witness:
  "wf_fire 2 2 [7, 9, 3, 1] \<and> (1::nat) < 2 \<and> (0::nat) + 1 < 2
   \<and> 1 = fst (seed_at_term (scripted [99, 99, 3, 1, 2, 1] 0) 2 2 (0, [7, 9, 3, 1]) 1)
   \<and> \<not> scripted [99, 99, 3, 1, 2, 1] 0 1 mod 100 < (60::nat)
   \<and> \<not> 10 < uint (cell 2 [7, 9, 3, 1] (2 - 1) 1)
   \<and> cell 2 (snd (update_fire_term (scripted [99, 99, 3, 1, 2, 1] 0) 2 2 (0, [7, 9, 3, 1]))) (2 - 1) 1
       = cell 2 [7, 9, 3, 1] (2 - 1) 1
   \<and> snd (update_fire_term (scripted [99, 99, 3, 1, 2, 1] 0) 2 2 (0, [7, 9, 3, 1])) = [0, 0, 3, 1]
   \<and> snd (fst (update_fire_gfx (scripted [99, 99, 3, 1, 2, 1] 0) 2 2 ((0, [7, 9, 3, 1]), [0, 0, 0, 0])))
       = [3, 0, 3, 1]"
proof -
  let ?rnd = "scripted [99, 99, 3, 1, 2, 1] 0"
  let ?buf = "[7, 9, 3, 1] :: 8 word list"
  have wf: "wf_fire 2 2 ?buf" by (simp add: wf_fire_def)
  have x: "(1::nat) < 2" and y: "(0::nat) + 1 < 2" by simp_all
  have m: "1 = fst (seed_at_term ?rnd 2 2 (0, ?buf) 1)" by code_simp
  have ns: "\<not> ?rnd 1 mod 100 < (60::nat)" by (simp add: scripted_def)
  have le: "\<not> 10 < uint (cell 2 ?buf (2 - 1) 1)" by (simp add: cell_def)
  note th = C5_range_invariant [OF wf x y m, of "[0, 0, 0, 0]"]
  from th ns le have keep:
    "cell 2 (snd (update_fire_term ?rnd 2 2 (0, ?buf))) (2 - 1) 1 = cell 2 ?buf (2 - 1) 1"
    by blast
  have et: "snd (update_fire_term ?rnd 2 2 (0, ?buf)) = [0, 0, 3, 1]" by code_simp
  have eg: "snd (fst (update_fire_gfx ?rnd 2 2 ((0, ?buf), [0, 0, 0, 0]))) = [3, 0, 3, 1]"
    by code_simp
  show ?thesis using wf x y m ns le keep et eg by blast
qed

text \<open>
  Claim C6, as amended.  \<^verbatim>\<open>resize_buffers(w, h)\<close> validates nothing and reports no
  error.  When the size equals the current one it changes nothing; otherwise it
  installs \<open>w\<close> and \<open>h\<close> as they are and allocates both buffers with
  \<^verbatim>\<open>calloc(w * h, 1)\<close>, whose result it does not check.  When \<open>w\<close> and \<open>h\<close> are
  positive, their product fits an \<^verbatim>\<open>int\<close> and the allocation succeeds, that is a
  well-formed grid of \<open>w * h\<close> cells, every one zero, on which \<^verbatim>\<open>update_fire\<close> is
  defined.  When the allocation fails, or the product does not fit, the size is
  installed all the same and the next \<^verbatim>\<open>update_fire\<close> is undefined.
\<close>

theorem C6_resize_buffers_installs_any_size:
  "(w = width gs \<and> h = height gs \<longrightarrow> resize_buffers gf gp w h gs = gs)
   \<and> (\<not> (w = width gs \<and> h = height gs) \<longrightarrow>
        width (resize_buffers gf gp w h gs) = w \<and> height (resize_buffers gf gp w h gs) = h
        \<and> fire_buffer (resize_buffers gf gp w h gs) = calloc gf (to_size_t (int_mul w h))
        \<and> prev_buffer (resize_buffers gf gp w h gs) = calloc gp (to_size_t (int_mul w h)))
   \<and> (0 < w \<and> 0 < h \<and> w * h < 2 ^ 31 \<and> \<not> (w = width gs \<and> h = height gs) \<longrightarrow>
        fire_buffer (resize_buffers True gp w h gs) = Some (replicate (nat w * nat h) 0)
        \<and> wf_fire (nat w) (nat h) (replicate (nat w * nat h) 0)
        \<and> (\<forall>c \<in> set (replicate (nat w * nat h) 0). c = 0)
        \<and> update_fire rnd (n, resize_buffers True gp w h gs) \<noteq> None)
   \<and> (0 < w \<and> \<not> (w = width gs \<and> h = height gs) \<longrightarrow>
        fire_buffer (resize_buffers False gp w h gs) = None
        \<and> update_fire rnd (n, resize_buffers False gp w h gs) = None)
   \<and> (0 < w \<and> 2 ^ 31 \<le> w * h \<and> \<not> (w = width gs \<and> h = height gs) \<longrightarrow>
        update_fire rnd (n, resize_buffers gf gp w h gs) = None)
   \<and> (w = 0 \<or> h = 0 \<longrightarrow> calloc True (to_size_t (int_mul w h)) = Some [])"
proof -
  have same: "w = width gs \<and> h = height gs \<longrightarrow> resize_buffers gf gp w h gs = gs"
    by (simp add: resize_buffers_def)
  have diff: "\<not> (w = width gs \<and> h = height gs) \<longrightarrow>
        width (resize_buffers gf gp w h gs) = w \<and> height (resize_buffers gf gp w h gs) = h
        \<and> fire_buffer (resize_buffers gf gp w h gs) = calloc gf (to_size_t (int_mul w h))
        \<and> prev_buffer (resize_buffers gf gp w h gs) = calloc gp (to_size_t (int_mul w h))"
    by (simp add: resize_buffers_def)
  have pos: "0 < w \<and> 0 < h \<and> w * h < 2 ^ 31 \<and> \<not> (w = width gs \<and> h = height gs) \<longrightarrow>
        fire_buffer (resize_buffers True gp w h gs) = Some (replicate (nat w * nat h) 0)
        \<and> wf_fire (nat w) (nat h) (replicate (nat w * nat h) 0)
        \<and> (\<forall>c \<in> set (replicate (nat w * nat h) 0). c = 0)
        \<and> update_fire rnd (n, resize_buffers True gp w h gs) \<noteq> None"
  proof
    assume a: "0 < w \<and> 0 < h \<and> w * h < 2 ^ 31 \<and> \<not> (w = width gs \<and> h = height gs)"
    then have c: "calloc True (to_size_t (int_mul w h)) = Some (replicate (nat w * nat h) 0)"
      by (intro calloc_fitting) simp_all
    have f: "fire_buffer (resize_buffers True gp w h gs) = Some (replicate (nat w * nat h) 0)"
      using a c by (simp add: resize_buffers_changed)
    have wf: "wf_fire (nat w) (nat h) (replicate (nat w * nat h) 0)"
      using a by (simp add: wf_fire_def)
    have u: "update_fire rnd (n, resize_buffers True gp w h gs) \<noteq> None"
      using update_fire_after_resize [of w h gs rnd n gp] a by simp
    show "fire_buffer (resize_buffers True gp w h gs) = Some (replicate (nat w * nat h) 0)
        \<and> wf_fire (nat w) (nat h) (replicate (nat w * nat h) 0)
        \<and> (\<forall>c \<in> set (replicate (nat w * nat h) 0). c = 0)
        \<and> update_fire rnd (n, resize_buffers True gp w h gs) \<noteq> None"
      using f wf u by simp
  qed
  have fail: "0 < w \<and> \<not> (w = width gs \<and> h = height gs) \<longrightarrow>
        fire_buffer (resize_buffers False gp w h gs) = None
        \<and> update_fire rnd (n, resize_buffers False gp w h gs) = None"
    using update_fire_after_failed_calloc [of w gs h rnd n gp]
    by (simp add: resize_buffers_def calloc_def)
  have over: "0 < w \<and> 2 ^ 31 \<le> w * h \<and> \<not> (w = width gs \<and> h = height gs) \<longrightarrow>
        update_fire rnd (n, resize_buffers gf gp w h gs) = None"
    using update_fire_after_oversize [of w h gs rnd n gf gp] by simp
  have z: "w = 0 \<or> h = 0 \<longrightarrow> calloc True (to_size_t (int_mul w h)) = Some []"
    by (auto simp add: calloc_def to_size_t_def int_mul_def)
  show ?thesis using same diff pos fail over z by blast
qed

theorem C6_witness:
  "\<not> ((10::int) = width initial_globals \<and> (10::int) = height initial_globals)
   \<and> (0::int) < 10 \<and> (10::int) * 10 < 2 ^ 31
   \<and> width (resize_buffers True True 10 10 initial_globals) = 10
   \<and> height (resize_buffers True True 10 10 initial_globals) = 10
   \<and> fire_buffer (resize_buffers True True 10 10 initial_globals) = Some (replicate 100 0)
   \<and> wf_fire 10 10 (replicate 100 0)
   \<and> update_fire (scripted [] 0) (0, resize_buffers True True 10 10 initial_globals) \<noteq> None
   \<and> resize_buffers True True 10 10 (resize_buffers True True 10 10 initial_globals)
       = resize_buffers True True 10 10 initial_globals"
proof -
  have d: "\<not> ((10::int) = width initial_globals \<and> (10::int) = height initial_globals)"
    by (simp add: initial_globals_def)
  have p: "(0::int) < 10 \<and> (0::int) < 10 \<and> (10::int) * 10 < 2 ^ 31" by simp
  note th = C6_resize_buffers_installs_any_size
    [of 10 initial_globals 10 True True "scripted [] 0" 0]
  from th p d have c:
    "fire_buffer (resize_buffers True True 10 10 initial_globals)
       = Some (replicate (nat 10 * nat 10) 0)
     \<and> wf_fire (nat 10) (nat 10) (replicate (nat 10 * nat 10) 0)
     \<and> update_fire (scripted [] 0) (0, resize_buffers True True 10 10 initial_globals) \<noteq> None"
    by blast
  from th d have i: "width (resize_buffers True True 10 10 initial_globals) = 10
      \<and> height (resize_buffers True True 10 10 initial_globals) = 10"
    by blast
  have s: "resize_buffers True True 10 10 (resize_buffers True True 10 10 initial_globals)
       = resize_buffers True True 10 10 initial_globals"
    by (simp add: resize_buffers_def initial_globals_def)
  show ?thesis using d c i s by simp
qed

theorem C6_counterexample:
  "resize_buffers True True 0 10 initial_globals =
     \<lparr>width = 0, height = 10, fire_buffer = Some [], prev_buffer = Some [],
      terminal = [CHR 0x1B, CHR ''['', CHR ''2'', CHR ''J'']\<rparr>
   \<and> resize_buffers True True (- 1) (- 1) initial_globals =
     \<lparr>width = - 1, height = - 1, fire_buffer = Some [0], prev_buffer = Some [0],
      terminal = [CHR 0x1B, CHR ''['', CHR ''2'', CHR ''J'']\<rparr>
   \<and> resize_buffers True True 1 1
       \<lparr>width = 1, height = 1, fire_buffer = Some [200], prev_buffer = Some [0], terminal = []\<rparr> =
     \<lparr>width = 1, height = 1, fire_buffer = Some [200], prev_buffer = Some [0], terminal = []\<rparr>
   \<and> int_mul 65535 65535 = - 131071
   \<and> resize_buffers True True 65535 65535 initial_globals =
     \<lparr>width = 65535, height = 65535, fire_buffer = None, prev_buffer = None,
      terminal = [CHR 0x1B, CHR ''['', CHR ''2'', CHR ''J'']\<rparr>"
  by (simp add: resize_buffers_def initial_globals_def calloc_def to_size_t_def int_mul_def)

text \<open>
  Claim C7.  Seed phase, for every column \<open>x\<close> of the bottom row; \<open>m\<close> is the number of
  \<^verbatim>\<open>rand()\<close> calls made when the loop reaches the column.  When call \<open>m\<close> selects the
  spark branch the cell ends the call at 255 minus the next call's value modulo 50,
  which lies in [205, 255]; otherwise the cell ends the call 5 lower when it was above
  10 and unchanged when it was not.  The same in the three files.
\<close>

theorem C7_seed_phase_spark_or_fixed_cooling:
  assumes "wf_fire w h buf" and "x < w" and "m = fst (seed_at_term rnd w h (n, buf) x)"
  shows "fst (seed_at_gfx rnd w h (n, buf) x) = m
    \<and> (rnd m mod 100 < 60 \<longrightarrow>
          uint (cell w (snd (update_fire_term rnd w h (n, buf))) (h - 1) x)
            = 255 - int (rnd (m + 1) mod 50)
        \<and> uint (cell w (snd (fst (update_fire_gfx rnd w h ((n, buf), pix)))) (h - 1) x)
            = 255 - int (rnd (m + 1) mod 50)
        \<and> 205 \<le> 255 - int (rnd (m + 1) mod 50) \<and> 255 - int (rnd (m + 1) mod 50) \<le> 255)
    \<and> (\<not> rnd m mod 100 < 60 \<and> 10 < uint (cell w buf (h - 1) x) \<longrightarrow>
          uint (cell w (snd (update_fire_term rnd w h (n, buf))) (h - 1) x)
            = uint (cell w buf (h - 1) x) - 5
        \<and> uint (cell w (snd (fst (update_fire_gfx rnd w h ((n, buf), pix)))) (h - 1) x)
            = uint (cell w buf (h - 1) x) - 5)
    \<and> (\<not> rnd m mod 100 < 60 \<and> \<not> 10 < uint (cell w buf (h - 1) x) \<longrightarrow>
          cell w (snd (update_fire_term rnd w h (n, buf))) (h - 1) x = cell w buf (h - 1) x
        \<and> cell w (snd (fst (update_fire_gfx rnd w h ((n, buf), pix)))) (h - 1) x
            = cell w buf (h - 1) x)"
proof -
  have r: "206 \<le> spark_value (rnd (m + 1)) \<and> spark_value (rnd (m + 1)) \<le> 255"
    by (rule spark_value_range)
  have g: "fst (seed_at_gfx rnd w h (n, buf) x) = m"
    using assms(3) by (simp add: seed_at_gfx_eq)
  show ?thesis
    unfolding update_term_bottom update_gfx_bottom
    using seed_row_term_value [OF assms] r g
    by (simp add: spark_value_def)
qed

theorem C7_witness:
  "wf_fire 2 2 [0, 0, 255, 255] \<and> (1::nat) < 2
   \<and> fst (seed_at_term (scripted [] 99) 2 2 (0, [0, 0, 255, 255]) 1) = 1
   \<and> \<not> scripted [] 99 1 mod 100 < (60 :: nat) \<and> 10 < uint (cell 2 [0, 0, 255, 255] (2 - 1) 1)
   \<and> uint (cell 2 (snd (update_fire_term (scripted [] 99) 2 2 (0, [0, 0, 255, 255]))) (2 - 1) 1) = 250
   \<and> uint (cell 2 (snd (fst (update_fire_gfx (scripted [] 99) 2 2 ((0, [0, 0, 255, 255]), [0, 0, 0, 0]))))
        (2 - 1) 1) = 250"
proof -
  have wf: "wf_fire 2 2 [0, 0, 255, 255]" by (simp add: wf_fire_def)
  have x: "(1::nat) < 2" by simp
  have m: "1 = fst (seed_at_term (scripted [] 99) 2 2 (0, [0, 0, 255, 255]) 1)" by code_simp
  have ns: "\<not> scripted [] 99 1 mod 100 < (60 :: nat)" by (simp add: scripted_def)
  have old: "uint (cell 2 [0, 0, 255, 255] (2 - 1) 1) = 255" by (simp add: cell_def)
  note th = C7_seed_phase_spark_or_fixed_cooling [OF wf x m, of "[0, 0, 0, 0]"]
  from th ns old have
    "uint (cell 2 (snd (update_fire_term (scripted [] 99) 2 2 (0, [0, 0, 255, 255]))) (2 - 1) 1) = 255 - 5
     \<and> uint (cell 2 (snd (fst (update_fire_gfx (scripted [] 99) 2 2 ((0, [0, 0, 255, 255]), [0, 0, 0, 0]))))
        (2 - 1) 1) = 255 - 5"
    by simp
  then show ?thesis using wf m ns old by simp
qed

text \<open>
  Claim C10.  A cell \<open>grid[y][x]\<close> above the source row is stored into only by the
  bodies of the columns \<open>x - 1\<close>, \<open>x\<close> and \<open>x + 1\<close> of its row, each into the column
  \<^const>\<open>write_col_term\<close> or \<^const>\<open>write_col_gfx\<close> gives (for a nonzero cell below, the
  drifted column).  When none of the three aims at \<open>x\<close>, the cell keeps the value it had
  before the call: the propagation does not define every cell from the row below.
\<close>

theorem C10_cell_without_incoming_store_keeps_old_value:
  assumes "wf_fire w h buf" and "y + 1 < h" and "x < w"
  shows "((\<forall>k<w. k \<le> x + 1 \<and> x \<le> k + 1 \<longrightarrow>
             write_col_term rnd w y k (prop_at_term rnd w h (n, buf) y k) \<noteq> Some x)
          \<longrightarrow> cell w (snd (update_fire_term rnd w h (n, buf))) y x = cell w buf y x)
    \<and> ((\<forall>k<w. k \<le> x + 1 \<and> x \<le> k + 1 \<longrightarrow>
             write_col_gfx rnd w y k (prop_at_gfx rnd w h (n, buf) y k) \<noteq> Some x)
          \<longrightarrow> cell w (snd (fst (update_fire_gfx rnd w h ((n, buf), pix)))) y x = cell w buf y x)"
  using update_term_keep [OF assms(2,3), of rnd "(n, buf)"]
    update_gfx_keep [OF assms(2,3), of rnd "(n, buf)" pix]
  by simp

theorem C10_witness:
  "wf_fire 3 2 [7, 8, 9, 200, 200, 200] \<and> (0::nat) + 1 < 2 \<and> (1::nat) < 3
   \<and> cell 3 (snd (update_fire_term
        (scripted [99, 99, 99, 0, 1, 0, 2, 0, 1] 0) 3 2
        (0, [7, 8, 9, 200, 200, 200]))) 0 1 = 8
   \<and> cell 3 (snd (fst (update_fire_gfx
        (scripted [99, 99, 99, 0, 1, 0, 2, 0, 1] 0) 3 2
        ((0, [7, 8, 9, 200, 200, 200]), [0, 0, 0, 0, 0, 0])))) 0 1 = 8
   \<and> cell 3 (snd (update_fire_term
        (scripted [99, 99, 99, 0, 1, 0, 2, 0, 1] 0) 3 2
        (0, [7, 8, 9, 200, 200, 200]))) 1 1 = 195"
proof -
  let ?rnd = "scripted [99, 99, 99, 0, 1, 0, 2, 0, 1] 0"
  let ?buf = "[7, 8, 9, 200, 200, 200] :: 8 word list"
  have wf: "wf_fire 3 2 ?buf" by (simp add: wf_fire_def)
  have y: "(0::nat) + 1 < 2" and x: "(1::nat) < 3" by simp_all
  have t0: "write_col_term ?rnd 3 0 0 (prop_at_term ?rnd 3 2 (0, ?buf) 0 0) \<noteq> Some 1" by code_simp
  have t1: "write_col_term ?rnd 3 0 1 (prop_at_term ?rnd 3 2 (0, ?buf) 0 1) \<noteq> Some 1" by code_simp
  have t2: "write_col_term ?rnd 3 0 2 (prop_at_term ?rnd 3 2 (0, ?buf) 0 2) \<noteq> Some 1" by code_simp
  have g0: "write_col_gfx ?rnd 3 0 0 (prop_at_gfx ?rnd 3 2 (0, ?buf) 0 0) \<noteq> Some 1" by code_simp
  have g1: "write_col_gfx ?rnd 3 0 1 (prop_at_gfx ?rnd 3 2 (0, ?buf) 0 1) \<noteq> Some 1" by code_simp
  have g2: "write_col_gfx ?rnd 3 0 2 (prop_at_gfx ?rnd 3 2 (0, ?buf) 0 2) \<noteq> Some 1" by code_simp
  have aim_t: "\<forall>k<3. k \<le> 1 + 1 \<and> 1 \<le> k + 1 \<longrightarrow>
      write_col_term ?rnd 3 0 k (prop_at_term ?rnd 3 2 (0, ?buf) 0 k) \<noteq> Some 1"
    unfolding all_less_3 using t0 t1 t2 by simp
  have aim_g: "\<forall>k<3. k \<le> 1 + 1 \<and> 1 \<le> k + 1 \<longrightarrow>
      write_col_gfx ?rnd 3 0 k (prop_at_gfx ?rnd 3 2 (0, ?buf) 0 k) \<noteq> Some 1"
    unfolding all_less_3 using g0 g1 g2 by simp
  have old: "cell 3 ?buf 0 1 = 8" by (simp add: cell_def)
  have below: "cell 3 (snd (update_fire_term ?rnd 3 2 (0, ?buf))) 1 1 = 195" by code_simp
  from C10_cell_without_incoming_store_keeps_old_value
    [OF wf y x, of ?rnd 0 "[0, 0, 0, 0, 0, 0]"] aim_t aim_g old
  have "cell 3 (snd (update_fire_term ?rnd 3 2 (0, ?buf))) 0 1 = 8
    \<and> cell 3 (snd (fst (update_fire_gfx ?rnd 3 2 ((0, ?buf), [0, 0, 0, 0, 0, 0])))) 0 1 = 8"
    by simp
  then show ?thesis using wf below by simp
qed

end
